theory Spec2Isabelle
  imports Complex_Main "HOL-Library.Word"
begin

section \<open>Conventions of the embedding\<close>

text \<open>
  The program is an Arduino sketch (Mega 2560, an AVR board: \<^verbatim>\<open>int\<close> has 16 bits,
  \<^verbatim>\<open>long\<close> and \<^verbatim>\<open>unsigned long\<close> have 32). Each class becomes a record, each method a
  function from the object (and what the method reads from the board) to the updated
  object (and what it writes to the board).

  \<^item> \<^verbatim>\<open>int\<close> and \<^verbatim>\<open>long\<close> values are HOL integers; where the source does arithmetic that
    can leave the range, the wrap-around is written out with \<open>int16\<close> and \<open>long32\<close>.
  \<^item> \<^verbatim>\<open>unsigned long\<close> values are \<open>32 word\<close>.
  \<^item> \<^verbatim>\<open>float\<close> values are real numbers: rounding and infinities are not modelled. NaN is
    modelled where the program can compute it from the samples, in the square roots of
    \<^verbatim>\<open>Values::compute\<close> (type \<open>flt\<close>).
  \<^item> A C array is a list; the fixed capacity is the length of the list.
  \<^item> Writes to the board and lines printed on the serial port are collected in a list of
    events, in program order; what a method reads from the board (\<^verbatim>\<open>micros()\<close>,
    \<^verbatim>\<open>millis()\<close>, \<^verbatim>\<open>digitalRead\<close>, the draw of \<^verbatim>\<open>random()\<close>) is an argument of its model.
\<close>

definition int16 :: "int \<Rightarrow> int" where
  "int16 x = (x + 32768) mod 65536 - 32768"

definition long32 :: "int \<Rightarrow> int" where
  "long32 x = (x + 2147483648) mod 4294967296 - 2147483648"

text \<open>Integer division of C: the quotient is truncated towards zero.\<close>

definition c_div :: "int \<Rightarrow> int \<Rightarrow> int" where
  "c_div a b = (if (a < 0) = (b < 0) then \<bar>a\<bar> div \<bar>b\<bar> else - (\<bar>a\<bar> div \<bar>b\<bar>))"

text \<open>
  The macros of \<^verbatim>\<open>Arduino.h\<close> that the sketch uses on floats:
  \<^verbatim>\<open>constrain(amt,low,high) ((amt)<(low)?(low):((amt)>(high)?(high):(amt)))\<close>,
  \<^verbatim>\<open>min(a,b) ((a)<(b)?(a):(b))\<close>, \<^verbatim>\<open>max(a,b) ((a)>(b)?(a):(b))\<close>,
  \<^verbatim>\<open>abs(x) ((x)>0?(x):-(x))\<close> and
  \<^verbatim>\<open>round(x) ((x)>=0?(long)((x)+0.5):(long)((x)-0.5))\<close>.
\<close>

definition constrain :: "real \<Rightarrow> real \<Rightarrow> real \<Rightarrow> real" where
  "constrain amt low high = (if amt < low then low else if amt > high then high else amt)"

definition min_macro :: "real \<Rightarrow> real \<Rightarrow> real" where
  "min_macro a b = (if a < b then a else b)"

definition max_macro :: "real \<Rightarrow> real \<Rightarrow> real" where
  "max_macro a b = (if a > b then a else b)"

definition abs_macro :: "real \<Rightarrow> real" where
  "abs_macro x = (if x > 0 then x else - x)"

definition round_macro :: "real \<Rightarrow> int" where
  "round_macro x = (if x \<ge> 0 then long32 \<lfloor>x + 0.5\<rfloor> else long32 \<lceil>x - 0.5\<rceil>)"

text \<open>
  A \<^verbatim>\<open>float\<close> that can be NaN. In \<^verbatim>\<open>Values::compute\<close> the square root of a negative number
  is NaN, and NaN goes through every later operation: an arithmetic operation with a NaN
  operand gives NaN, and a comparison with a NaN operand is false, so the macros \<^verbatim>\<open>max\<close> and
  \<^verbatim>\<open>constrain\<close> hand a NaN argument back as it is. The fields of \<^verbatim>\<open>Values\<close> that the square
  roots reach (the three RMS values and the two power factors) have this type.
\<close>

datatype flt = NaN | Val real

definition sqrt_flt :: "real \<Rightarrow> flt" where
  "sqrt_flt x = (if x < 0 then NaN else Val (sqrt x))"

definition times_flt :: "flt \<Rightarrow> flt \<Rightarrow> flt" where
  "times_flt a b = (case (a, b) of (Val x, Val y) \<Rightarrow> Val (x * y) | _ \<Rightarrow> NaN)"

definition divide_flt :: "flt \<Rightarrow> flt \<Rightarrow> flt" where
  "divide_flt a b = (case (a, b) of (Val x, Val y) \<Rightarrow> Val (x / y) | _ \<Rightarrow> NaN)"

definition max_flt :: "real \<Rightarrow> flt \<Rightarrow> flt" where
  "max_flt a b = (case b of NaN \<Rightarrow> NaN | Val y \<Rightarrow> Val (max_macro a y))"

definition constrain_flt :: "flt \<Rightarrow> real \<Rightarrow> real \<Rightarrow> flt" where
  "constrain_flt amt low high = (case amt of NaN \<Rightarrow> NaN | Val x \<Rightarrow> Val (constrain x low high))"


text \<open>What a method writes to the board, in program order.\<close>

datatype pin_mode = INPUT_PULLUP | OUTPUT

datatype hw_event =
    PinMode int pin_mode
  | DigitalWrite int bool
  | WaitUs nat
  | LogChange string string bool int int int int string
  | LogRefresh string string bool

definition is_log :: "hw_event \<Rightarrow> bool" where
  "is_log e = (case e of LogChange _ _ _ _ _ _ _ _ \<Rightarrow> True | LogRefresh _ _ _ \<Rightarrow> True
                | _ \<Rightarrow> False)"

section \<open>radio.h\<close>

datatype RadioHW = NO_RADIO | RADIO_GMOMXEN

record Radio =
  gpioRadio :: int

definition Radio_begin :: "int \<Rightarrow> Radio \<Rightarrow> Radio \<times> hw_event list" where
  "Radio_begin pinRadio rd =
     (rd\<lparr>gpioRadio := pinRadio\<rparr>, [PinMode pinRadio OUTPUT, DigitalWrite pinRadio False])"

definition HIGH_SHORT_US :: nat where "HIGH_SHORT_US = 591"
definition LOW_LONG_US :: nat where "LOW_LONG_US = 1263"
definition HIGH_LONG_US :: nat where "HIGH_LONG_US = 1190"
definition LOW_SHORT_US :: nat where "LOW_SHORT_US = 665"
definition WAIT_REPEAT_US :: nat where "WAIT_REPEAT_US = 7000"
definition NUM_REPEATS :: nat where "NUM_REPEATS = 5"
definition N_CHANNELS :: int where "N_CHANNELS = 3"

text \<open>The cloned codes: one row per channel, the Off code first, the On code second.\<close>

definition codes :: "(string \<times> string) list" where
  "codes =
     [(''100000011011010000110100000000000'', ''100011101011010000110100000000000''),
      (''101011101011010000110100000000000'', ''101001101011010000110100000000000''),
      (''100111101011010000110100000000000'', ''100101101011010000110100000000000'')]"

text \<open>One bit of a code: a pulse HIGH and a pulse LOW, each held by a busy wait.\<close>

definition sendBit :: "int \<Rightarrow> char \<Rightarrow> hw_event list" where
  "sendBit pin b =
     (if b = CHR ''0''
      then [DigitalWrite pin True, WaitUs HIGH_SHORT_US, DigitalWrite pin False, WaitUs LOW_LONG_US]
      else [DigitalWrite pin True, WaitUs HIGH_LONG_US, DigitalWrite pin False, WaitUs LOW_SHORT_US])"

definition sendRepetition :: "int \<Rightarrow> string \<Rightarrow> hw_event list" where
  "sendRepetition pin bitsCode = WaitUs WAIT_REPEAT_US # concat (map (sendBit pin) bitsCode)"

text \<open>
  \<^verbatim>\<open>Radio::sendGmomxen\<close>. The only \<^verbatim>\<open>return\<close> of the source is \<^verbatim>\<open>return -2\<close> for a channel
  out of range; after the code is sent the function ends with no \<^verbatim>\<open>return\<close> statement,
  so it hands back no defined value: \<open>None\<close>.
\<close>

definition sendGmomxen :: "Radio \<Rightarrow> int \<Rightarrow> bool \<Rightarrow> int option \<times> hw_event list" where
  "sendGmomxen rd channel setToOn =
     (if channel < 1 \<or> channel > N_CHANNELS then (Some (- 2), [])
      else
        let row = codes ! nat (channel - 1);
            bitsCode = (if setToOn then snd row else fst row)
        in (None, concat (replicate NUM_REPEATS (sendRepetition (gpioRadio rd) bitsCode))))"

text \<open>
  \<^verbatim>\<open>Radio::send\<close>. The \<^verbatim>\<open>case RADIO_GMOMXEN\<close> of the \<^verbatim>\<open>switch\<close> has no \<^verbatim>\<open>break\<close>, so control
  falls through into \<^verbatim>\<open>default\<close>, which overwrites \<^verbatim>\<open>ret\<close>. The three steps are the three
  assignments to \<^verbatim>\<open>ret\<close> in program order.
\<close>

definition send :: "Radio \<Rightarrow> RadioHW \<Rightarrow> int \<Rightarrow> bool \<Rightarrow> int \<times> hw_event list" where
  "send rd radioType channel setToOn =
     (let ret0 = Some 0;
          (ret1, out) = (case radioType of
                           RADIO_GMOMXEN \<Rightarrow> sendGmomxen rd channel setToOn
                         | NO_RADIO \<Rightarrow> (ret0, []));
          ret2 = - 1
      in (ret2, out))"

section \<open>countTime.h\<close>

record CountTime =
  lastTime :: "32 word"
  hours :: int
  minutes :: int
  seconds :: int
  hhmmss :: string
  flagOneSec :: bool
  decidePeriod_s :: int
  countDecide_s :: int
  flagDecide :: bool
  refreshPeriod_s :: int
  varRefreshPeriod_s :: int
  countRefresh_s :: int
  flagRefresh :: bool
  prevLoopStart_us :: "32 word"
  loopTime_us :: "32 word"

text \<open>
  \<^verbatim>\<open>random(howsmall, howbig)\<close> is not code of the sketch but of the Arduino core
  (\<^verbatim>\<open>WMath.cpp\<close>): \<^verbatim>\<open>if (howsmall >= howbig) return howsmall;\<close>
  \<^verbatim>\<open>long diff = howbig - howsmall; return random(diff) + howsmall;\<close> where \<^verbatim>\<open>random(diff)\<close> is
  \<^verbatim>\<open>random() % diff\<close> (and 0 when \<^verbatim>\<open>diff\<close> is 0). The draw \<open>r\<close> of \<^verbatim>\<open>random()\<close>, a number
  from 0 to \<^verbatim>\<open>RANDOM_MAX\<close>, is an argument.
\<close>

definition random_range :: "int \<Rightarrow> int \<Rightarrow> nat \<Rightarrow> int" where
  "random_range howsmall howbig r =
     (if howsmall \<ge> howbig then howsmall
      else let diff = long32 (howbig - howsmall)
           in long32 ((if diff = 0 then 0 else int r mod diff) + howsmall))"

text \<open>The decimal digits of a number, and \<^verbatim>\<open>%02d\<close> of \<^verbatim>\<open>snprintf\<close>.\<close>

fun decimal :: "nat \<Rightarrow> string" where
  "decimal n = (if n < 10 then [char_of (48 + n)] else decimal (n div 10) @ [char_of (48 + n mod 10)])"

definition fmt02d :: "int \<Rightarrow> string" where
  "fmt02d n = (if n < 0 then CHR ''-'' # decimal (nat (- n))
               else if n < 10 then CHR ''0'' # decimal (nat n)
               else decimal (nat n))"

definition CountTime_begin :: "int \<Rightarrow> int \<Rightarrow> int \<Rightarrow> 32 word \<Rightarrow> CountTime \<Rightarrow> CountTime" where
  "CountTime_begin setDecidePeriod_s setRefreshPeriod_s setVarRefreshPeriod_s now_ms ct =
     ct\<lparr>decidePeriod_s := setDecidePeriod_s,
        refreshPeriod_s := setRefreshPeriod_s,
        varRefreshPeriod_s := setVarRefreshPeriod_s,
        countDecide_s := setDecidePeriod_s,
        countRefresh_s := setRefreshPeriod_s,
        lastTime := now_ms,
        hhmmss := ''00:00:00''\<rparr>"

text \<open>The clock of \<^verbatim>\<open>CountTime::update\<close>: seconds, minutes and hours.\<close>

definition tickClock :: "CountTime \<Rightarrow> CountTime" where
  "tickClock ct =
     (let ct1 = ct\<lparr>seconds := int16 (seconds ct + 1)\<rparr>
      in if seconds ct1 \<ge> 60
         then let ct2 = ct1\<lparr>seconds := 0, minutes := int16 (minutes ct1 + 1)\<rparr>
              in if minutes ct2 \<ge> 60
                 then ct2\<lparr>minutes := 0, hours := int16 (hours ct2 + 1)\<rparr>
                 else ct2
         else ct1)"

definition tickDecide :: "CountTime \<Rightarrow> CountTime" where
  "tickDecide ct =
     (let ct1 = ct\<lparr>countDecide_s := int16 (countDecide_s ct - 1)\<rparr>
      in if countDecide_s ct1 \<le> 0
         then ct1\<lparr>countDecide_s := decidePeriod_s ct1, flagDecide := True\<rparr>
         else ct1)"

definition tickRefresh :: "nat \<Rightarrow> CountTime \<Rightarrow> CountTime" where
  "tickRefresh r ct =
     (let ct1 = ct\<lparr>countRefresh_s := int16 (countRefresh_s ct - 1)\<rparr>
      in if countRefresh_s ct1 \<le> 0
         then ct1\<lparr>countRefresh_s :=
                    int16 (long32 (refreshPeriod_s ct1
                      + random_range (- varRefreshPeriod_s ct1) (varRefreshPeriod_s ct1) r)),
                  flagRefresh := True\<rparr>
         else ct1)"

text \<open>
  \<^verbatim>\<open>CountTime::update\<close>. \<open>now_us\<close> and \<open>now_ms\<close> are what \<^verbatim>\<open>micros()\<close> and \<^verbatim>\<open>millis()\<close> return,
  \<open>r\<close> is the draw of \<^verbatim>\<open>random()\<close>. \<^verbatim>\<open>snprintf_P(hhmmss,14,...)\<close> keeps 13 characters.
\<close>

definition update :: "32 word \<Rightarrow> 32 word \<Rightarrow> nat \<Rightarrow> CountTime \<Rightarrow> CountTime" where
  "update now_us now_ms r ct =
     (let ct1 = ct\<lparr>flagOneSec := False, flagDecide := False, flagRefresh := False,
                   loopTime_us := now_us - prevLoopStart_us ct,
                   prevLoopStart_us := now_us\<rparr>
      in if now_ms - lastTime ct1 < 1000 then ct1
         else
           let ct2 = tickClock (ct1\<lparr>lastTime := lastTime ct1 + 1000, flagOneSec := True\<rparr>);
               ct3 = ct2\<lparr>hhmmss := take 13 (fmt02d (hours ct2) @ '':'' @ fmt02d (minutes ct2)
                                           @ '':'' @ fmt02d (seconds ct2))\<rparr>
           in tickRefresh r (tickDecide ct3))"

section \<open>simul.h and measure.h: what \<^verbatim>\<open>Values::compute\<close> reads\<close>

datatype SimulMode = NO_SIMUL | SIMUL_ANALOG | SIMUL_POWER

text \<open>
  The fields of \<^verbatim>\<open>Simul\<close> that \<^verbatim>\<open>Values::compute\<close> reads: the mode and the two simulated
  powers, \<^verbatim>\<open>int Pg\<close> and \<^verbatim>\<open>int Pc\<close> of the source (named apart from the fields of \<^verbatim>\<open>Values\<close>).
\<close>

record Simul =
  mode :: SimulMode
  Pg_simul :: int
  Pc_simul :: int

definition SAMPLES_PER_CYCLE :: nat where "SAMPLES_PER_CYCLE = 40"

text \<open>The fields of \<^verbatim>\<open>Measure\<close> that \<^verbatim>\<open>Values::compute\<close> reads; each array has
  \<open>SAMPLES_PER_CYCLE\<close> entries.\<close>

record Measure =
  numSamples :: int
  V0 :: "int list"
  Vx :: "int list"
  Ig :: "int list"
  Ic :: "int list"
  samplingUs :: "int list"
  prevCycleStartUs :: "32 word"
  cycleStartUs :: "32 word"

section \<open>values.h\<close>

record Values =
  V0RefV :: real
  MaxAmplV :: real
  VxRatio :: real
  IgRatio :: real
  IcRatio :: real
  V0Avg :: real
  VoltsPerCount :: real
  VxEff :: flt
  IgEff :: flt
  IcEff :: flt
  Pg :: real
  Pc :: real
  Pn :: real
  PFg :: flt
  PFc :: flt
  TimeConst :: real
  PgFilt :: real
  PcFilt :: real
  PnFilt :: real
  MaxConsumpt :: real
  Margin :: real
  interval :: "32 word"
  startUs :: "32 word"
  endUs :: "32 word"
  samplingTimeAvg_us :: "32 word"

definition Values_begin :: "real \<Rightarrow> real \<Rightarrow> real \<Rightarrow> real \<Rightarrow> Values \<Rightarrow> Values" where
  "Values_begin VxNomVeff IgNomAeff IcNomAeff MaxConsumpt_arg v =
     v\<lparr>VxRatio := VxNomVeff * 1.4142 / MaxAmplV v,
       IgRatio := IgNomAeff * 1.4142 / MaxAmplV v,
       IcRatio := IcNomAeff * 1.4142 / MaxAmplV v,
       MaxConsumpt := MaxConsumpt_arg\<rparr>"

text \<open>The three accumulation loops of \<^verbatim>\<open>Values::compute\<close>, over \<^verbatim>\<open>i = 0 .. n-1\<close>, in a
  \<^verbatim>\<open>long\<close>: the sum of an array, the sum of the squares of an array once the offset is
  subtracted, and the sum of the products of two arrays once the offset is subtracted.\<close>

definition sumSamples :: "int list \<Rightarrow> nat \<Rightarrow> int" where
  "sumSamples xs n = fold (\<lambda>i sum. long32 (sum + xs ! i)) [0..<n] 0"

definition sumSquares :: "int list \<Rightarrow> int \<Rightarrow> nat \<Rightarrow> int" where
  "sumSquares xs offset n =
     fold (\<lambda>i sum. let value = long32 (xs ! i - offset)
                    in long32 (sum + long32 (value * value))) [0..<n] 0"

definition sumProducts :: "int list \<Rightarrow> int list \<Rightarrow> int \<Rightarrow> nat \<Rightarrow> int" where
  "sumProducts xs ys offset n =
     fold (\<lambda>i sum. let value = long32 (long32 (xs ! i - offset) * long32 (ys ! i - offset))
                    in long32 (sum + value)) [0..<n] 0"

text \<open>
  \<^verbatim>\<open>Values::compute\<close>, in the order of the source. First the start time, the average
  sampling time, the offset (the average of the reference samples) and the conversion
  factor; \<open>offsetOf\<close> is the local variable \<^verbatim>\<open>offset\<close>.
\<close>

definition offsetOf :: "Measure \<Rightarrow> int" where
  "offsetOf cm = c_div (sumSamples (V0 cm) (nat (numSamples cm))) (numSamples cm)"

definition computeOffset :: "Measure \<Rightarrow> 32 word \<Rightarrow> Values \<Rightarrow> Values" where
  "computeOffset cm now_us v =
     (let v = v\<lparr>startUs := now_us\<rparr>;
          v = v\<lparr>samplingTimeAvg_us :=
                   word_of_int (c_div (sumSamples (samplingUs cm) (nat (numSamples cm)))
                                      (numSamples cm))\<rparr>;
          v = v\<lparr>V0Avg := real_of_int (offsetOf cm)\<rparr>
      in v\<lparr>VoltsPerCount := V0RefV v / max_macro 1.0 (V0Avg v)\<rparr>)"

text \<open>The RMS value of an array of samples: \<^verbatim>\<open>sqrt(((float)sum) / ((float) numSamples))\<close>,
  which is NaN when the sum in the \<^verbatim>\<open>long\<close> has wrapped around to a negative value; and
  the mean of the products of two arrays.\<close>

definition rms :: "Measure \<Rightarrow> int list \<Rightarrow> flt" where
  "rms cm xs =
     sqrt_flt (real_of_int (sumSquares xs (offsetOf cm) (nat (numSamples cm)))
               / real_of_int (numSamples cm))"

definition meanProduct :: "Measure \<Rightarrow> int list \<Rightarrow> int list \<Rightarrow> real" where
  "meanProduct cm xs ys =
     real_of_int (sumProducts xs ys (offsetOf cm) (nat (numSamples cm)))
       / real_of_int (numSamples cm)"

text \<open>RMS grid voltage; solar generated RMS intensity, power and power factor.\<close>

definition computeGenerated :: "Measure \<Rightarrow> Values \<Rightarrow> Values" where
  "computeGenerated cm v =
     (let v = v\<lparr>VxEff := times_flt (rms cm (Vx cm)) (Val (VoltsPerCount v * VxRatio v))\<rparr>;
          v = v\<lparr>IgEff := times_flt (rms cm (Ig cm)) (Val (VoltsPerCount v * IgRatio v))\<rparr>;
          v = v\<lparr>Pg := meanProduct cm (Ig cm) (Vx cm)
                         * (VoltsPerCount v * IgRatio v) * (VoltsPerCount v * VxRatio v)\<rparr>;
          v = v\<lparr>Pg := abs_macro (Pg v)\<rparr>
      in v\<lparr>PFg := divide_flt (Val (Pg v)) (max_flt 1.0 (times_flt (VxEff v) (IgEff v)))\<rparr>)"

text \<open>Consumed RMS intensity, power and power factor.\<close>

definition computeConsumed :: "Measure \<Rightarrow> Values \<Rightarrow> Values" where
  "computeConsumed cm v =
     (let v = v\<lparr>IcEff := times_flt (rms cm (Ic cm)) (Val (VoltsPerCount v * IcRatio v))\<rparr>;
          v = v\<lparr>Pc := meanProduct cm (Ic cm) (Vx cm)
                         * (VoltsPerCount v * IcRatio v) * (VoltsPerCount v * VxRatio v)\<rparr>;
          v = v\<lparr>Pc := - abs_macro (Pc v)\<rparr>
      in v\<lparr>PFc := divide_flt (Val (- Pc v)) (max_flt 1.0 (times_flt (VxEff v) (IcEff v)))\<rparr>)"

text \<open>The override by the simulated powers, and the net power.\<close>

definition netPower :: "Simul \<Rightarrow> Values \<Rightarrow> Values" where
  "netPower sm v =
     (let v = (if mode sm = SIMUL_POWER
               then v\<lparr>Pg := real_of_int (Pg_simul sm), Pc := - real_of_int (Pc_simul sm)\<rparr>
               else v)
      in v\<lparr>Pn := Pg v + Pc v\<rparr>)"

text \<open>The values before clipping.\<close>

definition computeRaw :: "Simul \<Rightarrow> Measure \<Rightarrow> 32 word \<Rightarrow> Values \<Rightarrow> Values" where
  "computeRaw sm cm now_us v =
     netPower sm (computeConsumed cm (computeGenerated cm (computeOffset cm now_us v)))"

text \<open>Clipping of the extreme values.\<close>

definition clip :: "Values \<Rightarrow> Values" where
  "clip v =
     (let v = v\<lparr>VxEff := constrain_flt (VxEff v) 0.0 999.0\<rparr>;
          v = v\<lparr>IgEff := constrain_flt (IgEff v) 0.0 99.0\<rparr>;
          v = v\<lparr>IcEff := constrain_flt (IcEff v) 0.0 99.0\<rparr>;
          v = v\<lparr>Pg := constrain (Pg v) 0.0 9999.0\<rparr>;
          v = v\<lparr>Pc := constrain (Pc v) (- 9999.0) 0.0\<rparr>;
          v = v\<lparr>Pn := constrain (Pn v) (- 9999.0) 9999.0\<rparr>;
          v = v\<lparr>PFg := constrain_flt (PFg v) 0.0 0.99\<rparr>
      in v\<lparr>PFc := constrain_flt (PFc v) 0.0 0.99\<rparr>)"

text \<open>Filtering of the powers, and the margin.\<close>

definition filterPowers :: "Values \<Rightarrow> Values" where
  "filterPowers v =
     (let v = (if interval v = 0
               then v\<lparr>PgFilt := Pg v, PcFilt := Pc v, PnFilt := Pn v\<rparr>
               else
                 let alpha = min_macro 1.0 (real (unat (interval v)) / TimeConst v);
                     v = v\<lparr>PgFilt := PgFilt v + alpha * (Pg v - PgFilt v)\<rparr>;
                     v = v\<lparr>PcFilt := PcFilt v + alpha * (Pc v - PcFilt v)\<rparr>
                 in v\<lparr>PnFilt := PgFilt v + PcFilt v\<rparr>)
      in v\<lparr>Margin := MaxConsumpt v - (- PcFilt v)\<rparr>)"

text \<open>The time between the previous grid cycle and this one, and the end time.\<close>

definition setInterval :: "Measure \<Rightarrow> 32 word \<Rightarrow> Values \<Rightarrow> Values" where
  "setInterval cm now_us v =
     (let v = (if prevCycleStartUs cm = 0 then v\<lparr>interval := 0\<rparr>
               else v\<lparr>interval := cycleStartUs cm - prevCycleStartUs cm\<rparr>)
      in v\<lparr>endUs := now_us\<rparr>)"

text \<open>
  \<^verbatim>\<open>Values::compute\<close>. \<open>start_us\<close> and \<open>end_us\<close> are what the two calls of \<^verbatim>\<open>micros()\<close>
  return. The source divides by \<^verbatim>\<open>numSamples\<close> in integer arithmetic and reads the arrays
  up to \<^verbatim>\<open>numSamples\<close>; it has no defined behaviour when \<^verbatim>\<open>numSamples\<close> is 0 or larger than the arrays:
  the model returns a fault there.
\<close>

datatype fault = DivisionByZero | OutOfBounds

definition validCycle :: "Measure \<Rightarrow> bool" where
  "validCycle cm =
     (numSamples cm \<noteq> 0 \<and> numSamples cm \<le> int (length (samplingUs cm))
      \<and> numSamples cm \<le> int (length (V0 cm)) \<and> numSamples cm \<le> int (length (Vx cm))
      \<and> numSamples cm \<le> int (length (Ig cm)) \<and> numSamples cm \<le> int (length (Ic cm)))"

definition compute :: "Simul \<Rightarrow> Measure \<Rightarrow> 32 word \<Rightarrow> 32 word \<Rightarrow> Values \<Rightarrow> fault + Values" where
  "compute sm cm start_us end_us v =
     (if numSamples cm = 0 then Inl DivisionByZero
      else if numSamples cm > int (length (samplingUs cm)) \<or> numSamples cm > int (length (V0 cm))
              \<or> numSamples cm > int (length (Vx cm)) \<or> numSamples cm > int (length (Ig cm))
              \<or> numSamples cm > int (length (Ic cm))
      then Inl OutOfBounds
      else Inr (setInterval cm end_us (filterPowers (clip (computeRaw sm cm start_us v)))))"

section \<open>loads.h\<close>

definition N_LOADS_MAX :: nat where "N_LOADS_MAX = 3"

definition POWER_REDUCTION_FACTOR :: real where "POWER_REDUCTION_FACTOR = 0.85"

record Loads =
  nLoadsMax :: int
  nLoads :: int
  cause :: string
  name :: "string list"
  powerW :: "real list"
  lockOnSec :: "int list"
  lockOffSec :: "int list"
  gpioOut :: "int list"
  gpioMode :: "int list"
  radioModel :: "RadioHW list"
  channel :: "int list"
  solarMode :: "bool list"
  flag :: "bool list"
  on :: "bool list"
  lockSec :: "int list"

text \<open>
  The arrays of a \<^verbatim>\<open>Loads\<close> object have \<open>N_LOADS_MAX\<close> entries and the methods index them
  with \<^verbatim>\<open>0 .. nLoads-1\<close> (\<^verbatim>\<open>add\<close> with \<^verbatim>\<open>nLoads\<close>), with no check but the one of \<^verbatim>\<open>add\<close>
  against \<^verbatim>\<open>nLoadsMax\<close>. \<open>inBounds\<close> is the condition under which every such access is inside
  the arrays; outside it the source has no defined behaviour.
\<close>

definition inBounds :: "Loads \<Rightarrow> bool" where
  "inBounds ld =
     (0 \<le> nLoads ld \<and> nLoads ld \<le> nLoadsMax ld \<and> nLoadsMax ld \<le> int N_LOADS_MAX
      \<and> length (name ld) = N_LOADS_MAX \<and> length (powerW ld) = N_LOADS_MAX
      \<and> length (lockOnSec ld) = N_LOADS_MAX \<and> length (lockOffSec ld) = N_LOADS_MAX
      \<and> length (gpioOut ld) = N_LOADS_MAX \<and> length (gpioMode ld) = N_LOADS_MAX
      \<and> length (radioModel ld) = N_LOADS_MAX \<and> length (channel ld) = N_LOADS_MAX
      \<and> length (solarMode ld) = N_LOADS_MAX \<and> length (flag ld) = N_LOADS_MAX
      \<and> length (on ld) = N_LOADS_MAX \<and> length (lockSec ld) = N_LOADS_MAX)"

text \<open>
  \<^verbatim>\<open>Loads::add\<close>. \<open>digitalRead\<close> is what the board returns for a read of an input pin
  (\<open>True\<close> for HIGH), the same for every read of that pin during one call. The result is
  the return value, the object and the writes.
\<close>

definition add ::
  "(int \<Rightarrow> bool) \<Rightarrow> string \<Rightarrow> real \<Rightarrow> int \<Rightarrow> int \<Rightarrow> int \<Rightarrow> int \<Rightarrow> RadioHW \<Rightarrow> int \<Rightarrow> Loads
     \<Rightarrow> int \<times> Loads \<times> hw_event list" where
  "add digitalRead name_arg powerW_arg lockOnSec_arg lockOffSec_arg gpioOut_arg gpioMode_arg
       radioModel_arg channel_arg ld =
     (if nLoads ld \<ge> nLoadsMax ld then (- 1, ld, [])
      else
        let k = nat (nLoads ld);
            ld = ld\<lparr>name := (name ld)[k := name_arg],
                    powerW := (powerW ld)[k := powerW_arg],
                    lockOnSec := (lockOnSec ld)[k := lockOnSec_arg],
                    lockOffSec := (lockOffSec ld)[k := lockOffSec_arg],
                    gpioOut := (gpioOut ld)[k := gpioOut_arg],
                    gpioMode := (gpioMode ld)[k := gpioMode_arg],
                    radioModel := (radioModel ld)[k := radioModel_arg],
                    channel := (channel ld)[k := channel_arg],
                    flag := (flag ld)[k := True],
                    on := (on ld)[k := False],
                    lockSec := (lockSec ld)[k := 0]\<rparr>;
            out1 = (if gpioOut ld ! k \<noteq> - 1
                    then [PinMode (gpioOut ld ! k) OUTPUT, DigitalWrite (gpioOut ld ! k) False]
                    else []);
            (ld, out2) = (if gpioMode ld ! k \<noteq> - 1
                    then (ld\<lparr>solarMode := (solarMode ld)[k := digitalRead (gpioMode ld ! k)]\<rparr>,
                          [PinMode (gpioMode ld ! k) INPUT_PULLUP])
                    else (ld\<lparr>solarMode := (solarMode ld)[k := True]\<rparr>, []))
        in (0, ld\<lparr>nLoads := nLoads ld + 1\<rparr>, out1 @ out2))"

text \<open>The task of every second, for load \<open>i\<close>: the body of the first loop of
  \<^verbatim>\<open>Loads::decide\<close>.\<close>

definition oneSecLoad :: "(int \<Rightarrow> bool) \<Rightarrow> nat \<Rightarrow> Loads \<Rightarrow> Loads" where
  "oneSecLoad digitalRead i ld =
     (let ld = ld\<lparr>solarMode := (solarMode ld)[i := digitalRead (gpioMode ld ! i)]\<rparr>
      in if lockSec ld ! i > 0
         then ld\<lparr>lockSec := (lockSec ld)[i := lockSec ld ! i - 1]\<rparr>
         else ld)"

definition oneSecTasks :: "(int \<Rightarrow> bool) \<Rightarrow> Loads \<Rightarrow> Loads" where
  "oneSecTasks digitalRead ld = fold (oneSecLoad digitalRead) [0..<nat (nLoads ld)] ld"

text \<open>What the rules do to the load they pick.\<close>

definition switchOff :: "nat \<Rightarrow> string \<Rightarrow> Loads \<Rightarrow> Loads" where
  "switchOff i why ld =
     ld\<lparr>on := (on ld)[i := False],
        flag := (flag ld)[i := True],
        lockSec := (lockSec ld)[i := lockOffSec ld ! i],
        cause := why\<rparr>"

definition switchOn :: "nat \<Rightarrow> Loads \<Rightarrow> Loads" where
  "switchOn i ld =
     ld\<lparr>on := (on ld)[i := True],
        flag := (flag ld)[i := True],
        lockSec := (lockSec ld)[i := lockOnSec ld ! i],
        cause := (if \<not> solarMode ld ! i then ''enough margin''
                  else ''enough excedent and margin'')\<rparr>"

text \<open>
  The four rules of \<^verbatim>\<open>Loads::decide\<close>. Each is a loop that returns from \<^verbatim>\<open>decide\<close> at the
  first load (or pair of loads) its condition holds for: the model of a rule is the search
  for that load, \<open>None\<close> when the loop ends without a \<^verbatim>\<open>return\<close>. The loops of rules 1 and 2
  run from \<^verbatim>\<open>nLoads-1\<close> down to 0, those of rules 3 and 4 from 0 up.
\<close>

definition rule1 :: "Values \<Rightarrow> Loads \<Rightarrow> nat option" where
  "rule1 cv ld =
     (if Margin cv \<le> 0
      then find (\<lambda>i. on ld ! i) (rev [0..<nat (nLoads ld)])
      else None)"

definition rule2 :: "Values \<Rightarrow> Loads \<Rightarrow> nat option" where
  "rule2 cv ld =
     (if PnFilt cv \<le> 0.0
      then find (\<lambda>i. solarMode ld ! i \<and> on ld ! i \<and> lockSec ld ! i = 0) (rev [0..<nat (nLoads ld)])
      else None)"

definition rule3inner :: "Values \<Rightarrow> Loads \<Rightarrow> nat \<Rightarrow> nat option" where
  "rule3inner cv ld i =
     (if \<not> on ld ! i \<and> solarMode ld ! i \<and> lockSec ld ! i = 0
      then find (\<lambda>j. on ld ! j \<and> solarMode ld ! j \<and> lockSec ld ! j = 0
                     \<and> powerW ld ! j * POWER_REDUCTION_FACTOR + PnFilt cv \<ge> powerW ld ! i)
             [i + 1..<nat (nLoads ld)]
      else None)"

fun firstSome :: "('a \<Rightarrow> 'b option) \<Rightarrow> 'a list \<Rightarrow> 'b option" where
  "firstSome f [] = None"
| "firstSome f (x # xs) = (case f x of Some y \<Rightarrow> Some y | None \<Rightarrow> firstSome f xs)"

definition rule3 :: "Values \<Rightarrow> Loads \<Rightarrow> nat option" where
  "rule3 cv ld = firstSome (rule3inner cv ld) [0..<nat (nLoads ld)]"

definition rule4 :: "Values \<Rightarrow> Loads \<Rightarrow> nat option" where
  "rule4 cv ld =
     find (\<lambda>i. \<not> on ld ! i \<and> lockSec ld ! i = 0 \<and> powerW ld ! i < Margin cv
                \<and> (\<not> solarMode ld ! i \<or> powerW ld ! i < PnFilt cv))
       [0..<nat (nLoads ld)]"

definition decideRules :: "Values \<Rightarrow> Loads \<Rightarrow> Loads" where
  "decideRules cv ld =
     (case rule1 cv ld of Some i \<Rightarrow> switchOff i ''no margin'' ld
      | None \<Rightarrow>
     (case rule2 cv ld of Some i \<Rightarrow> switchOff i ''no excedent'' ld
      | None \<Rightarrow>
     (case rule3 cv ld of Some j \<Rightarrow> switchOff j ''priority inversion'' ld
      | None \<Rightarrow>
     (case rule4 cv ld of Some i \<Rightarrow> switchOn i ld
      | None \<Rightarrow> ld))))"

text \<open>\<^verbatim>\<open>Loads::decide\<close>: the task of every second, then the rules of the decide period.\<close>

definition decide :: "(int \<Rightarrow> bool) \<Rightarrow> CountTime \<Rightarrow> Values \<Rightarrow> Loads \<Rightarrow> Loads" where
  "decide digitalRead ct cv ld =
     (let ld = (if flagOneSec ct then oneSecTasks digitalRead ld else ld)
      in if flagDecide ct then decideRules cv ld else ld)"

text \<open>The two lines that \<^verbatim>\<open>Loads::print\<close> and \<^verbatim>\<open>Loads::printRefr\<close> write on the serial port,
  as the values that \<^verbatim>\<open>snprintf_P\<close> formats.\<close>

definition print :: "nat \<Rightarrow> CountTime \<Rightarrow> Values \<Rightarrow> Loads \<Rightarrow> hw_event" where
  "print iLoad ct cv ld =
     LogChange (hhmmss ct) (name ld ! iLoad) (on ld ! iLoad)
       (int16 (round_macro (PgFilt cv))) (int16 (round_macro (PcFilt cv)))
       (int16 (round_macro (PgFilt cv + PcFilt cv))) (int16 (round_macro (Margin cv)))
       (cause ld)"

definition printRefr :: "nat \<Rightarrow> CountTime \<Rightarrow> Loads \<Rightarrow> hw_event" where
  "printRefr iLoad ct ld = LogRefresh (hhmmss ct) (name ld ! iLoad) (on ld ! iLoad)"

text \<open>\<^verbatim>\<open>Loads::activate\<close>: the body of its loop for load \<open>i\<close>, and the loop.\<close>

definition activateLoad ::
  "CountTime \<Rightarrow> Radio \<Rightarrow> Values \<Rightarrow> nat \<Rightarrow> Loads \<times> hw_event list \<Rightarrow> Loads \<times> hw_event list" where
  "activateLoad ct rd cv i acc =
     (let (ld, out) = acc
      in if flag ld ! i \<or> flagRefresh ct
         then
           let line = (if flag ld ! i then print i ct cv ld else printRefr i ct ld);
               ld = ld\<lparr>flag := (flag ld)[i := False]\<rparr>;
               pin = (if gpioOut ld ! i \<noteq> - 1 then [DigitalWrite (gpioOut ld ! i) (on ld ! i)]
                      else []);
               radio = (if radioModel ld ! i \<noteq> NO_RADIO
                        then snd (send rd (radioModel ld ! i) (channel ld ! i) (on ld ! i))
                        else [])
           in (ld, out @ [line] @ pin @ radio)
         else (ld, out))"

definition activate :: "CountTime \<Rightarrow> Radio \<Rightarrow> Values \<Rightarrow> Loads \<Rightarrow> Loads \<times> hw_event list" where
  "activate ct rd cv ld = fold (activateLoad ct rd cv) [0..<nat (nLoads ld)] (ld, [])"

section \<open>Objects used in the examples\<close>

text \<open>A \<^verbatim>\<open>Loads\<close> object as its constructor leaves it (in static storage, where the arrays
  start zeroed), and one with two loads registered, both on, the second one locked.\<close>

definition Loads_new :: Loads where
  "Loads_new =
     \<lparr>nLoadsMax = int N_LOADS_MAX, nLoads = 0, cause = ''program start'',
      name = [[], [], []], powerW = [0, 0, 0],
      lockOnSec = [0, 0, 0], lockOffSec = [0, 0, 0],
      gpioOut = [0, 0, 0], gpioMode = [0, 0, 0],
      radioModel = [NO_RADIO, NO_RADIO, NO_RADIO], channel = [0, 0, 0],
      solarMode = [False, False, False], flag = [False, False, False],
      on = [False, False, False], lockSec = [0, 0, 0]\<rparr>"

definition exLoads :: Loads where
  "exLoads =
     \<lparr>nLoadsMax = 3, nLoads = 2, cause = ''program start'',
      name = [''boil'', ''pump'', []], powerW = [1000, 500, 0],
      lockOnSec = [60, 30, 0], lockOffSec = [120, 90, 0],
      gpioOut = [7, - 1, 0], gpioMode = [4, 5, 0],
      radioModel = [NO_RADIO, RADIO_GMOMXEN, NO_RADIO], channel = [0, 2, 0],
      solarMode = [True, True, False], flag = [True, False, False],
      on = [True, True, False], lockSec = [0, 10, 0]\<rparr>"

text \<open>A scheduler in the loop where the one-second, decide and refresh flags are all set,
  and one whose refresh countdown is about to fire.\<close>

definition exTime :: CountTime where
  "exTime =
     \<lparr>lastTime = 5000, hours = 0, minutes = 0, seconds = 5, hhmmss = ''00:00:05'',
      flagOneSec = True, decidePeriod_s = 5, countDecide_s = 5, flagDecide = True,
      refreshPeriod_s = 30, varRefreshPeriod_s = 5, countRefresh_s = 31, flagRefresh = True,
      prevLoopStart_us = 0, loopTime_us = 0\<rparr>"

definition exTimeDue :: CountTime where
  "exTimeDue =
     \<lparr>lastTime = 5000, hours = 0, minutes = 0, seconds = 5, hhmmss = ''00:00:05'',
      flagOneSec = False, decidePeriod_s = 5, countDecide_s = 3, flagDecide = False,
      refreshPeriod_s = 30, varRefreshPeriod_s = 5, countRefresh_s = 1, flagRefresh = False,
      prevLoopStart_us = 0, loopTime_us = 0\<rparr>"

text \<open>A \<^verbatim>\<open>Values\<close> object as its constructor leaves it (no previous interval), and the
  same with a given filtered net power and margin.\<close>

definition Values_new :: Values where
  "Values_new =
     \<lparr>V0RefV = 2.5, MaxAmplV = 2.0, VxRatio = 0, IgRatio = 0, IcRatio = 0, V0Avg = 0,
      VoltsPerCount = 0, VxEff = Val 0, IgEff = Val 0, IcEff = Val 0, Pg = 0, Pc = 0, Pn = 0,
      PFg = Val 0, PFc = Val 0, TimeConst = 1000000, PgFilt = 0, PcFilt = 0, PnFilt = 0, MaxConsumpt = 0,
      Margin = 0, interval = 0, startUs = 0, endUs = 0, samplingTimeAvg_us = 0\<rparr>"

definition exValues :: "real \<Rightarrow> real \<Rightarrow> Values" where
  "exValues excedent margin = Values_new\<lparr>PnFilt := excedent, Margin := margin\<rparr>"

text \<open>A grid cycle of 40 samples with every input at the offset, and the simulation of
  powers that the serial command \<^verbatim>\<open>P g, c\<close> sets.\<close>

definition exMeasure :: Measure where
  "exMeasure =
     \<lparr>numSamples = int SAMPLES_PER_CYCLE,
      V0 = replicate SAMPLES_PER_CYCLE 512, Vx = replicate SAMPLES_PER_CYCLE 512,
      Ig = replicate SAMPLES_PER_CYCLE 512, Ic = replicate SAMPLES_PER_CYCLE 512,
      samplingUs = replicate SAMPLES_PER_CYCLE 150,
      prevCycleStartUs = 0, cycleStartUs = 20000\<rparr>"

definition exSimul :: "int \<Rightarrow> int \<Rightarrow> Simul" where
  "exSimul g c = \<lparr>mode = SIMUL_POWER, Pg_simul = g, Pc_simul = c\<rparr>"

text \<open>The first call of \<^verbatim>\<open>Values::compute\<close> after the command \<^verbatim>\<open>P 20000, 5000\<close>.\<close>

definition exFirstCycle :: "fault + Values" where
  "exFirstCycle =
     compute (exSimul 20000 5000) exMeasure 0 0 (Values_begin 230 20 20 3000 Values_new)"



text \<open>A radio on pin 9.\<close>

definition exRadio :: Radio where
  "exRadio = \<lparr>gpioRadio = 9\<rparr>"

text \<open>The registration of a load with no mode switch (\<^verbatim>\<open>gpioMode = -1\<close>) in an empty
  registry, on a board whose \<^verbatim>\<open>digitalRead\<close> returns LOW.\<close>

definition exNoSwitch :: Loads where
  "exNoSwitch =
     fst (snd (add (\<lambda>pin. False) ''boil'' 1000 60 120 7 (- 1) NO_RADIO 0 Loads_new))"

section \<open>What \<^verbatim>\<open>Loads::activate\<close> emits for one load\<close>

text \<open>The commands for load \<open>i\<close> (the write of its output pin and the code sent to its
  remote switch), and everything \<^verbatim>\<open>activate\<close> emits for it, with the line on the serial
  port first. Both are read off \<open>activateLoad\<close>; the proofs use them to describe the loop.\<close>

definition loadCommands :: "Radio \<Rightarrow> Loads \<Rightarrow> nat \<Rightarrow> hw_event list" where
  "loadCommands rd ld i =
     (if gpioOut ld ! i \<noteq> - 1 then [DigitalWrite (gpioOut ld ! i) (on ld ! i)] else [])
     @ (if radioModel ld ! i \<noteq> NO_RADIO
        then snd (send rd (radioModel ld ! i) (channel ld ! i) (on ld ! i)) else [])"

definition loadOutput :: "CountTime \<Rightarrow> Radio \<Rightarrow> Values \<Rightarrow> Loads \<Rightarrow> nat \<Rightarrow> hw_event list" where
  "loadOutput ct rd cv ld i =
     (if flag ld ! i \<or> flagRefresh ct
      then (if flag ld ! i then print i ct cv ld else printRefr i ct ld) # loadCommands rd ld i
      else [])"

section \<open>Properties of \<^verbatim>\<open>Loads::decide\<close>\<close>

subsection \<open>The task of every second\<close>

lemma oneSecLoad_frame:
  "on (oneSecLoad dr i ld) = on ld" "flag (oneSecLoad dr i ld) = flag ld"
  "nLoads (oneSecLoad dr i ld) = nLoads ld" "nLoadsMax (oneSecLoad dr i ld) = nLoadsMax ld"
  "cause (oneSecLoad dr i ld) = cause ld" "name (oneSecLoad dr i ld) = name ld"
  "powerW (oneSecLoad dr i ld) = powerW ld" "lockOnSec (oneSecLoad dr i ld) = lockOnSec ld"
  "lockOffSec (oneSecLoad dr i ld) = lockOffSec ld" "gpioOut (oneSecLoad dr i ld) = gpioOut ld"
  "gpioMode (oneSecLoad dr i ld) = gpioMode ld" "radioModel (oneSecLoad dr i ld) = radioModel ld"
  "channel (oneSecLoad dr i ld) = channel ld"
  "length (solarMode (oneSecLoad dr i ld)) = length (solarMode ld)"
  "length (lockSec (oneSecLoad dr i ld)) = length (lockSec ld)"
  by (simp_all add: oneSecLoad_def Let_def)

lemma fold_oneSecLoad_frame:
  "on (fold (oneSecLoad dr) js ld) = on ld \<and> flag (fold (oneSecLoad dr) js ld) = flag ld
   \<and> nLoads (fold (oneSecLoad dr) js ld) = nLoads ld
   \<and> nLoadsMax (fold (oneSecLoad dr) js ld) = nLoadsMax ld
   \<and> cause (fold (oneSecLoad dr) js ld) = cause ld \<and> name (fold (oneSecLoad dr) js ld) = name ld
   \<and> powerW (fold (oneSecLoad dr) js ld) = powerW ld
   \<and> lockOnSec (fold (oneSecLoad dr) js ld) = lockOnSec ld
   \<and> lockOffSec (fold (oneSecLoad dr) js ld) = lockOffSec ld
   \<and> gpioOut (fold (oneSecLoad dr) js ld) = gpioOut ld
   \<and> gpioMode (fold (oneSecLoad dr) js ld) = gpioMode ld
   \<and> radioModel (fold (oneSecLoad dr) js ld) = radioModel ld
   \<and> channel (fold (oneSecLoad dr) js ld) = channel ld
   \<and> length (solarMode (fold (oneSecLoad dr) js ld)) = length (solarMode ld)
   \<and> length (lockSec (fold (oneSecLoad dr) js ld)) = length (lockSec ld)"
  by (induction js arbitrary: ld) (simp_all add: oneSecLoad_frame)

lemma oneSecTasks_frame:
  "on (oneSecTasks dr ld) = on ld" "flag (oneSecTasks dr ld) = flag ld"
  "nLoads (oneSecTasks dr ld) = nLoads ld" "nLoadsMax (oneSecTasks dr ld) = nLoadsMax ld"
  "cause (oneSecTasks dr ld) = cause ld" "name (oneSecTasks dr ld) = name ld"
  "powerW (oneSecTasks dr ld) = powerW ld" "lockOnSec (oneSecTasks dr ld) = lockOnSec ld"
  "lockOffSec (oneSecTasks dr ld) = lockOffSec ld" "gpioOut (oneSecTasks dr ld) = gpioOut ld"
  "gpioMode (oneSecTasks dr ld) = gpioMode ld" "radioModel (oneSecTasks dr ld) = radioModel ld"
  "channel (oneSecTasks dr ld) = channel ld"
  "length (solarMode (oneSecTasks dr ld)) = length (solarMode ld)"
  "length (lockSec (oneSecTasks dr ld)) = length (lockSec ld)"
  by (simp_all add: oneSecTasks_def fold_oneSecLoad_frame)

lemma inBounds_oneSecTasks: "inBounds ld \<Longrightarrow> inBounds (oneSecTasks dr ld)"
  by (simp add: inBounds_def oneSecTasks_frame)

lemma oneSecLoad_nth:
  "i < length (solarMode ld) \<Longrightarrow> solarMode (oneSecLoad dr j ld) ! i
      = (if i = j then dr (gpioMode ld ! i) else solarMode ld ! i)"
  "i < length (lockSec ld) \<Longrightarrow> lockSec (oneSecLoad dr j ld) ! i
      = (if i = j \<and> lockSec ld ! i > 0 then lockSec ld ! i - 1 else lockSec ld ! i)"
  by (auto simp: oneSecLoad_def Let_def nth_list_update)

lemma fold_oneSecLoad_nth:
  assumes "i < length (solarMode ld)" "i < length (lockSec ld)"
  shows "solarMode (fold (oneSecLoad dr) [0..<n] ld) ! i
           = (if i < n then dr (gpioMode ld ! i) else solarMode ld ! i)
         \<and> lockSec (fold (oneSecLoad dr) [0..<n] ld) ! i
           = (if i < n \<and> lockSec ld ! i > 0 then lockSec ld ! i - 1 else lockSec ld ! i)"
proof (induction n)
  case 0
  show ?case by simp
next
  case (Suc n)
  let ?s = "fold (oneSecLoad dr) [0..<n] ld"
  have len: "i < length (solarMode ?s)" "i < length (lockSec ?s)"
    using assms by (simp_all add: fold_oneSecLoad_frame)
  have gp: "gpioMode ?s = gpioMode ld" by (simp add: fold_oneSecLoad_frame)
  show ?case
    using Suc.IH by (auto simp: oneSecLoad_nth(1) [OF len(1)] oneSecLoad_nth(2) [OF len(2)] gp less_Suc_eq)
qed

lemma inBounds_index: "inBounds ld \<Longrightarrow> k < nat (nLoads ld) \<Longrightarrow> k < N_LOADS_MAX"
  unfolding inBounds_def by linarith

lemma oneSecTasks_nth:
  assumes "inBounds ld" "i < nat (nLoads ld)"
  shows "solarMode (oneSecTasks dr ld) ! i = dr (gpioMode ld ! i)"
    and "lockSec (oneSecTasks dr ld) ! i
           = (if lockSec ld ! i > 0 then lockSec ld ! i - 1 else lockSec ld ! i)"
proof -
  have "i < length (solarMode ld)" "i < length (lockSec ld)"
    using assms inBounds_index [OF assms] by (simp_all add: inBounds_def)
  from fold_oneSecLoad_nth [OF this, of dr "nat (nLoads ld)"] assms(2)
  show "solarMode (oneSecTasks dr ld) ! i = dr (gpioMode ld ! i)"
    and "lockSec (oneSecTasks dr ld) ! i
           = (if lockSec ld ! i > 0 then lockSec ld ! i - 1 else lockSec ld ! i)"
    by (simp_all add: oneSecTasks_def)
qed

subsection \<open>The searches of the four rules\<close>

lemma find_down_Some:
  "find P (rev [0..<n]) = Some k \<Longrightarrow> k < n \<and> P k \<and> (\<forall>j. k < j \<and> j < n \<longrightarrow> \<not> P j)"
proof (induction n)
  case 0
  then show ?case by simp
next
  case (Suc n)
  show ?case
  proof (cases "P n")
    case True
    with Suc.prems have "k = n" by simp
    with True show ?thesis by auto
  next
    case False
    with Suc.prems have "find P (rev [0..<n]) = Some k" by simp
    from Suc.IH [OF this] False show ?thesis
      by (auto simp: less_Suc_eq)
  qed
qed

lemma find_down_None: "find P (rev [0..<n]) = None \<Longrightarrow> i < n \<Longrightarrow> \<not> P i"
  by (auto simp: find_None_iff)

lemma find_up_Some: "find P [i..<n] = Some k \<Longrightarrow> i \<le> k \<and> k < n \<and> P k"
  by (auto simp: find_Some_iff)

lemma firstSome_Some: "firstSome f xs = Some y \<Longrightarrow> \<exists>x\<in>set xs. f x = Some y"
  by (induction xs) (auto split: option.splits)

lemma rule1_Some:
  "rule1 cv ld = Some k \<Longrightarrow>
     Margin cv \<le> 0 \<and> k < nat (nLoads ld) \<and> on ld ! k
     \<and> (\<forall>j. k < j \<and> j < nat (nLoads ld) \<longrightarrow> \<not> on ld ! j)"
  by (auto simp: rule1_def split: if_splits dest: find_down_Some)

lemma rule1_fires:
  assumes "Margin cv \<le> 0" "i < nat (nLoads ld)" "on ld ! i"
  shows "\<exists>k. rule1 cv ld = Some k"
proof (cases "rule1 cv ld")
  case None
  with assms(1) have "find (\<lambda>i. on ld ! i) (rev [0..<nat (nLoads ld)]) = None"
    by (simp add: rule1_def)
  from find_down_None [OF this assms(2)] assms(3) show ?thesis by simp
next
  case (Some k)
  then show ?thesis by blast
qed

lemma rule2_Some:
  "rule2 cv ld = Some k \<Longrightarrow> k < nat (nLoads ld) \<and> on ld ! k \<and> lockSec ld ! k = 0"
  by (auto simp: rule2_def split: if_splits dest: find_down_Some)

lemma rule3_Some:
  "rule3 cv ld = Some k \<Longrightarrow> k < nat (nLoads ld) \<and> on ld ! k \<and> lockSec ld ! k = 0"
  by (auto simp: rule3_def rule3inner_def split: if_splits dest!: firstSome_Some find_up_Some)

lemma rule4_Some:
  "rule4 cv ld = Some k \<Longrightarrow> k < nat (nLoads ld) \<and> \<not> on ld ! k \<and> lockSec ld ! k = 0"
  by (auto simp: rule4_def dest!: find_up_Some)

lemma decideRules_cases:
  "(\<exists>k. rule1 cv ld = Some k \<and> decideRules cv ld = switchOff k ''no margin'' ld)
   \<or> (\<exists>k. rule1 cv ld = None \<and> rule2 cv ld = Some k
          \<and> decideRules cv ld = switchOff k ''no excedent'' ld)
   \<or> (\<exists>k. rule1 cv ld = None \<and> rule2 cv ld = None \<and> rule3 cv ld = Some k
          \<and> decideRules cv ld = switchOff k ''priority inversion'' ld)
   \<or> (\<exists>k. rule1 cv ld = None \<and> rule2 cv ld = None \<and> rule3 cv ld = None \<and> rule4 cv ld = Some k
          \<and> decideRules cv ld = switchOn k ld)
   \<or> (rule1 cv ld = None \<and> rule2 cv ld = None \<and> rule3 cv ld = None \<and> rule4 cv ld = None
          \<and> decideRules cv ld = ld)"
  by (simp add: decideRules_def split: option.splits)

lemma unchanged_is_update: "\<exists>k b. xs = xs[k := b]"
proof -
  have "xs = xs[0 := xs ! 0]" by simp
  then show ?thesis by blast
qed

lemma decideRules_on: "\<exists>k b. on (decideRules cv ld) = (on ld)[k := b]"
  using decideRules_cases [of cv ld] unchanged_is_update [of "on ld"]
  by (elim disjE exE conjE) (auto simp: switchOff_def switchOn_def)

lemma decide_on: "\<exists>k b. on (decide dr ct cv ld) = (on ld)[k := b]"
  using decideRules_on [of cv "oneSecTasks dr ld"] decideRules_on [of cv ld]
    unchanged_is_update [of "on ld"]
  by (simp add: decide_def Let_def oneSecTasks_frame)

lemma switch_frame:
  "nLoads (switchOff k why ld) = nLoads ld" "nLoadsMax (switchOff k why ld) = nLoadsMax ld"
  "nLoads (switchOn k ld) = nLoads ld" "nLoadsMax (switchOn k ld) = nLoadsMax ld"
  by (simp_all add: switchOff_def switchOn_def)

lemma inBounds_switch:
  "inBounds ld \<Longrightarrow> inBounds (switchOff k why ld)" "inBounds ld \<Longrightarrow> inBounds (switchOn k ld)"
  by (simp_all add: inBounds_def switchOff_def switchOn_def)

lemma inBounds_decideRules: "inBounds ld \<Longrightarrow> inBounds (decideRules cv ld)"
  using decideRules_cases [of cv ld] by (auto simp: inBounds_switch)

lemma inBounds_decide: "inBounds ld \<Longrightarrow> inBounds (decide dr ct cv ld)"
  by (simp add: decide_def Let_def inBounds_decideRules inBounds_oneSecTasks)

lemma inBounds_Loads_new: "inBounds Loads_new"
  by (simp add: inBounds_def Loads_new_def N_LOADS_MAX_def)

lemma changed_at_most_one:
  assumes "ys = xs[k := b]"
  shows "card {i. i < length xs \<and> ys ! i \<noteq> xs ! i} \<le> 1"
proof -
  have "ys ! i = xs ! i" if "i \<noteq> k" for i
    using assms that by simp
  then have "{i. i < length xs \<and> ys ! i \<noteq> xs ! i} \<subseteq> {k}"
    by blast
  then have "card {i. i < length xs \<and> ys ! i \<noteq> xs ! i} \<le> card {k}"
    by (intro card_mono) auto
  then show ?thesis by simp
qed

subsection \<open>At most one change in a call\<close>

lemma decideRules_shape:
  "decideRules cv ld = ld
   \<or> (\<exists>k why. k < nat (nLoads ld) \<and> decideRules cv ld = switchOff k why ld)
   \<or> (\<exists>k. k < nat (nLoads ld) \<and> decideRules cv ld = switchOn k ld)"
  using decideRules_cases [of cv ld]
proof (elim disjE exE conjE)
  fix k assume "rule1 cv ld = Some k" "decideRules cv ld = switchOff k ''no margin'' ld"
  with rule1_Some [of cv ld k] show ?thesis by blast
next
  fix k assume "rule2 cv ld = Some k" "decideRules cv ld = switchOff k ''no excedent'' ld"
  with rule2_Some [of cv ld k] show ?thesis by blast
next
  fix k assume "rule3 cv ld = Some k" "decideRules cv ld = switchOff k ''priority inversion'' ld"
  with rule3_Some [of cv ld k] show ?thesis by blast
next
  fix k assume "rule4 cv ld = Some k" "decideRules cv ld = switchOn k ld"
  with rule4_Some [of cv ld k] show ?thesis by blast
next
  assume "decideRules cv ld = ld"
  then show ?thesis by blast
qed

text \<open>
  C1. In a call of \<^verbatim>\<open>Loads::decide\<close> with the decide flag set, at most one load changes its
  on/off state: the call ends with the state left by the task of every second, or with
  that state after one single switch (off or on) of one registered load.
\<close>

theorem decide_changes_at_most_one_load:
  assumes "inBounds ld" and "flagDecide ct"
    and "ld1 = (if flagOneSec ct then oneSecTasks dr ld else ld)"
  shows "length (on (decide dr ct cv ld)) = length (on ld)
         \<and> card {i. i < length (on ld) \<and> on (decide dr ct cv ld) ! i \<noteq> on ld ! i} \<le> 1
         \<and> (decide dr ct cv ld = ld1
            \<or> (\<exists>k why. k < nat (nLoads ld) \<and> decide dr ct cv ld = switchOff k why ld1)
            \<or> (\<exists>k. k < nat (nLoads ld) \<and> decide dr ct cv ld = switchOn k ld1))"
proof -
  obtain k b where eq: "on (decide dr ct cv ld) = (on ld)[k := b]"
    using decide_on by blast
  then have len: "length (on (decide dr ct cv ld)) = length (on ld)" by simp
  have one: "card {i. i < length (on ld) \<and> on (decide dr ct cv ld) ! i \<noteq> on ld ! i} \<le> 1"
    using eq by (rule changed_at_most_one)
  have dec: "decide dr ct cv ld = decideRules cv ld1"
    using assms(2,3) by (simp add: decide_def Let_def)
  have n: "nLoads ld1 = nLoads ld"
    using assms(3) by (simp add: oneSecTasks_frame)
  have "decide dr ct cv ld = ld1
        \<or> (\<exists>k why. k < nat (nLoads ld) \<and> decide dr ct cv ld = switchOff k why ld1)
        \<or> (\<exists>k. k < nat (nLoads ld) \<and> decide dr ct cv ld = switchOn k ld1)"
    using decideRules_shape [of cv ld1] unfolding dec n .
  with len one show ?thesis by blast
qed

theorem decide_changes_at_most_one_load_witness:
  "inBounds exLoads \<and> flagDecide exTime
   \<and> card {i. i < length (on exLoads)
              \<and> on (decide (\<lambda>pin. True) exTime (exValues 0 (- 100)) exLoads) ! i \<noteq> on exLoads ! i} \<le> 1
   \<and> on exLoads = [True, True, False]
   \<and> on (decide (\<lambda>pin. True) exTime (exValues 0 (- 100)) exLoads) = [True, False, False]"
proof -
  have h1: "inBounds exLoads"
    by (simp add: inBounds_def exLoads_def N_LOADS_MAX_def)
  have h2: "flagDecide exTime"
    by (simp add: exTime_def)
  have e1: "on exLoads = [True, True, False]"
    by (simp add: exLoads_def)
  have e2: "on (decide (\<lambda>pin. True) exTime (exValues 0 (- 100)) exLoads) = [True, False, False]"
    by code_simp
  from decide_changes_at_most_one_load [OF h1 h2 refl, of "\<lambda>pin. True" "exValues 0 (- 100)"]
  have "card {i. i < length (on exLoads)
              \<and> on (decide (\<lambda>pin. True) exTime (exValues 0 (- 100)) exLoads) ! i \<noteq> on exLoads ! i} \<le> 1"
    by blast
  with h1 h2 e1 e2 show ?thesis by blast
qed

subsection \<open>Rule 1 before the other rules\<close>

text \<open>
  C2. When \<^verbatim>\<open>Loads::decide\<close> runs with the decide flag set, the margin is not positive and
  some registered load is on, the call switches off the on load of highest index \<open>k\<close>
  (lowest priority), whatever its lock counter: it is the state left by the task of every
  second with load \<open>k\<close> off, its flag set, its lock counter at its lock-off time and the
  cause ``no margin''. Nothing else changes, so no other rule has acted.
\<close>

theorem rule1_precedence:
  assumes "inBounds ld" and "flagDecide ct" and "Margin cv \<le> 0"
    and "i < nat (nLoads ld)" and "on ld ! i"
  shows "\<exists>k. k < nat (nLoads ld) \<and> on ld ! k
           \<and> (\<forall>j. k < j \<and> j < nat (nLoads ld) \<longrightarrow> \<not> on ld ! j)
           \<and> decide dr ct cv ld
               = switchOff k ''no margin'' (if flagOneSec ct then oneSecTasks dr ld else ld)
           \<and> on (decide dr ct cv ld) = (on ld)[k := False]
           \<and> lockSec (decide dr ct cv ld) ! k = lockOffSec ld ! k
           \<and> cause (decide dr ct cv ld) = ''no margin''"
proof -
  let ?ld1 = "if flagOneSec ct then oneSecTasks dr ld else ld"
  have fr: "on ?ld1 = on ld" "nLoads ?ld1 = nLoads ld" "lockOffSec ?ld1 = lockOffSec ld"
    by (simp_all add: oneSecTasks_frame)
  have len: "length (lockSec ?ld1) = N_LOADS_MAX"
    using assms(1) by (simp add: oneSecTasks_frame inBounds_def)
  from rule1_fires [of cv i ?ld1] assms(3-5) fr
  obtain k where k: "rule1 cv ?ld1 = Some k" by auto
  from rule1_Some [OF k] fr
  have kp: "k < nat (nLoads ld)" "on ld ! k" "\<forall>j. k < j \<and> j < nat (nLoads ld) \<longrightarrow> \<not> on ld ! j"
    by simp_all
  have klen: "k < length (lockSec ?ld1)"
    using inBounds_index [OF assms(1) kp(1)] len by simp
  have dec: "decide dr ct cv ld = switchOff k ''no margin'' ?ld1"
    using assms(2) k by (simp add: decide_def Let_def decideRules_def)
  have "on (decide dr ct cv ld) = (on ld)[k := False]"
    unfolding dec using fr by (simp add: switchOff_def)
  moreover have "lockSec (decide dr ct cv ld) ! k = lockOffSec ld ! k"
    unfolding dec using fr klen by (simp add: switchOff_def)
  moreover have "cause (decide dr ct cv ld) = ''no margin''"
    unfolding dec by (simp add: switchOff_def)
  ultimately show ?thesis using kp dec by blast
qed

theorem rule1_precedence_witness:
  "inBounds exLoads \<and> flagDecide exTime \<and> Margin (exValues 0 (- 100)) \<le> 0
   \<and> 1 < nat (nLoads exLoads) \<and> on exLoads ! 1 \<and> 0 < lockSec exLoads ! 1
   \<and> cause (decide (\<lambda>pin. True) exTime (exValues 0 (- 100)) exLoads) = ''no margin''
   \<and> lockSec (decide (\<lambda>pin. True) exTime (exValues 0 (- 100)) exLoads) = [0, 90, 0]"
proof -
  have h1: "inBounds exLoads"
    by (simp add: inBounds_def exLoads_def N_LOADS_MAX_def)
  have h2: "flagDecide exTime"
    by (simp add: exTime_def)
  have h3: "Margin (exValues 0 (- 100)) \<le> 0"
    by (simp add: exValues_def)
  have h4: "1 < nat (nLoads exLoads)"
    by (simp add: exLoads_def)
  have h5: "on exLoads ! 1"
    by (simp add: exLoads_def)
  have e1: "0 < lockSec exLoads ! 1"
    by (simp add: exLoads_def)
  have e2: "lockSec (decide (\<lambda>pin. True) exTime (exValues 0 (- 100)) exLoads) = [0, 90, 0]"
    by code_simp
  from rule1_precedence [OF h1 h2 h3 h4 h5, of "\<lambda>pin. True"]
  have "cause (decide (\<lambda>pin. True) exTime (exValues 0 (- 100)) exLoads) = ''no margin''"
    by blast
  with h1 h2 h3 h4 h5 e1 e2 show ?thesis by blast
qed

subsection \<open>Locked loads\<close>

text \<open>
  C3. A registered load whose lock counter is above 0 when the rules are evaluated (that
  is, after the countdown that the same call does when the one-second flag is set) keeps
  its on/off state through \<^verbatim>\<open>Loads::decide\<close>, unless the decide flag is set, the margin
  is not positive and rule 1 switches this very load off.
\<close>

theorem locked_load_toggled_only_by_rule1:
  assumes "inBounds ld" and "i < nat (nLoads ld)"
    and "0 < lockSec (if flagOneSec ct then oneSecTasks dr ld else ld) ! i"
  shows "on (decide dr ct cv ld) ! i = on ld ! i
         \<or> (flagDecide ct \<and> Margin cv \<le> 0
            \<and> decide dr ct cv ld
                = switchOff i ''no margin'' (if flagOneSec ct then oneSecTasks dr ld else ld))"
proof -
  let ?ld1 = "if flagOneSec ct then oneSecTasks dr ld else ld"
  have fr: "on ?ld1 = on ld" by (simp add: oneSecTasks_frame)
  show ?thesis
  proof (cases "flagDecide ct")
    case False
    then have "decide dr ct cv ld = ?ld1" by (simp add: decide_def Let_def)
    with fr show ?thesis by simp
  next
    case True
    then have dec: "decide dr ct cv ld = decideRules cv ?ld1" by (simp add: decide_def Let_def)
    from decideRules_cases [of cv ?ld1] show ?thesis
    proof (elim disjE exE conjE)
      fix k assume k: "rule1 cv ?ld1 = Some k" "decideRules cv ?ld1 = switchOff k ''no margin'' ?ld1"
      show ?thesis
      proof (cases "k = i")
        case True
        with k rule1_Some [OF k(1)] dec \<open>flagDecide ct\<close> show ?thesis by simp
      next
        case False
        then have "on (switchOff k ''no margin'' ?ld1) ! i = on ld ! i"
          using fr by (simp add: switchOff_def)
        with k dec show ?thesis by simp
      qed
    next
      fix k assume k: "rule2 cv ?ld1 = Some k" "decideRules cv ?ld1 = switchOff k ''no excedent'' ?ld1"
      from rule2_Some [OF k(1)] assms(3) have "k \<noteq> i" by auto
      then have "on (switchOff k ''no excedent'' ?ld1) ! i = on ld ! i"
        using fr by (simp add: switchOff_def)
      with k dec show ?thesis by simp
    next
      fix k assume k: "rule3 cv ?ld1 = Some k"
        "decideRules cv ?ld1 = switchOff k ''priority inversion'' ?ld1"
      from rule3_Some [OF k(1)] assms(3) have "k \<noteq> i" by auto
      then have "on (switchOff k ''priority inversion'' ?ld1) ! i = on ld ! i"
        using fr by (simp add: switchOff_def)
      with k dec show ?thesis by simp
    next
      fix k assume k: "rule4 cv ?ld1 = Some k" "decideRules cv ?ld1 = switchOn k ?ld1"
      from rule4_Some [OF k(1)] assms(3) have "k \<noteq> i" by auto
      then have "on (switchOn k ?ld1) ! i = on ld ! i"
        using fr by (simp add: switchOn_def)
      with k dec show ?thesis by simp
    next
      assume "decideRules cv ?ld1 = ?ld1"
      with dec fr show ?thesis by simp
    qed
  qed
qed

theorem locked_load_toggled_only_by_rule1_witness:
  "inBounds exLoads \<and> 1 < nat (nLoads exLoads)
   \<and> 0 < lockSec (if flagOneSec exTime then oneSecTasks (\<lambda>pin. True) exLoads else exLoads) ! 1
   \<and> on (decide (\<lambda>pin. True) exTime (exValues (- 10) 500) exLoads) ! 1 = on exLoads ! 1
   \<and> on (decide (\<lambda>pin. True) exTime (exValues (- 10) 500) exLoads) = [False, True, False]"
proof -
  have h1: "inBounds exLoads"
    by (simp add: inBounds_def exLoads_def N_LOADS_MAX_def)
  have h2: "1 < nat (nLoads exLoads)"
    by (simp add: exLoads_def)
  have h3: "0 < lockSec (if flagOneSec exTime then oneSecTasks (\<lambda>pin. True) exLoads else exLoads) ! 1"
    by code_simp
  have m: "\<not> Margin (exValues (- 10) 500) \<le> 0"
    by (simp add: exValues_def)
  have e: "on (decide (\<lambda>pin. True) exTime (exValues (- 10) 500) exLoads) = [False, True, False]"
    by code_simp
  from locked_load_toggled_only_by_rule1 [OF h1 h2 h3, of "exValues (- 10) 500"] m
  have "on (decide (\<lambda>pin. True) exTime (exValues (- 10) 500) exLoads) ! 1 = on exLoads ! 1"
    by blast
  with h1 h2 h3 e show ?thesis by blast
qed

text \<open>The countdown of the one-second task comes before the rules in the same call: a load
  that enters the call with its lock counter at 1 is free when the rules are evaluated, and
  here rule 2 switches it off.\<close>

lemma lock_expiring_in_the_call:
  "lockSec (exLoads\<lparr>lockSec := [0, 1, 0]\<rparr>) ! 1 = 1
   \<and> decide (\<lambda>pin. True) exTime (exValues (- 10) 500) (exLoads\<lparr>lockSec := [0, 1, 0]\<rparr>)
       = exLoads\<lparr>on := [True, False, False], flag := [True, True, False],
                  lockSec := [0, 90, 0], cause := ''no excedent''\<rparr>"
  by code_simp

subsection \<open>The mode of a load with no mode switch\<close>

text \<open>The task of every second stores in \<^verbatim>\<open>solarMode[i]\<close> what \<^verbatim>\<open>digitalRead(gpioMode[i])\<close>
  returns, for every registered load: the loop has no test of \<^verbatim>\<open>gpioMode[i]\<close> against -1,
  the test that \<^verbatim>\<open>Loads::add\<close> makes.\<close>

lemma decide_resamples_every_load:
  assumes "inBounds ld" and "i < nat (nLoads ld)" and "flagOneSec ct"
  shows "solarMode (decide dr ct cv ld) ! i = dr (gpioMode ld ! i)"
proof -
  have tick: "solarMode (oneSecTasks dr ld) ! i = dr (gpioMode ld ! i)"
    using assms(1,2) by (rule oneSecTasks_nth)
  have "solarMode (decideRules cv s) = solarMode s" for s
    using decideRules_cases [of cv s] by (auto simp: switchOff_def switchOn_def)
  with tick assms(3) show ?thesis
    by (simp add: decide_def Let_def)
qed

text \<open>
  C4. The claim does not hold of the code. A load registered with \<^verbatim>\<open>gpioMode = -1\<close> starts
  in solar mode, and the next one-second task of \<^verbatim>\<open>Loads::decide\<close> overwrites its mode with
  the result of \<^verbatim>\<open>digitalRead(-1)\<close>: on a board that answers LOW the load is in manual mode
  from then on.
\<close>

theorem load_without_switch_leaves_solar_mode:
  "nLoads exNoSwitch = 1 \<and> gpioMode exNoSwitch ! 0 = - 1 \<and> solarMode exNoSwitch ! 0 = True
   \<and> solarMode (decide (\<lambda>pin. False) (exTime\<lparr>flagDecide := False\<rparr>) (exValues 0 0) exNoSwitch) ! 0
       = False"
  by code_simp

subsection \<open>The registration of a load\<close>

text \<open>\<^verbatim>\<open>Loads::add\<close> returns 0 exactly when the registry has room.\<close>

lemma add_full: "nLoads ld \<ge> nLoadsMax ld \<Longrightarrow> add dr nm pw lon loff gout gmode rm ch ld = (- 1, ld, [])"
  by (simp add: add_def)

lemma add_ok_iff: "fst (add dr nm pw lon loff gout gmode rm ch ld) = 0 \<longleftrightarrow> nLoads ld < nLoadsMax ld"
  by (simp add: add_def Let_def split: prod.splits)

text \<open>
  C10. After a call of \<^verbatim>\<open>Loads::add\<close> that returns 0, the new load is in slot \<^verbatim>\<open>nLoads\<close>
  (the count before the call) with its configuration as given, off, with its flag set and
  its lock counter at 0; its mode is solar when no mode-switch pin is given and the reading
  of the pin otherwise; \<^verbatim>\<open>nLoads\<close> has grown by one, and every field of every load
  registered before is as it was.
\<close>

theorem add_registers_next_slot:
  assumes "inBounds ld"
    and "fst (add dr nm pw lon loff gout gmode rm ch ld) = 0"
    and "ld' = fst (snd (add dr nm pw lon loff gout gmode rm ch ld))"
    and "k = nat (nLoads ld)"
  shows "nLoads ld' = nLoads ld + 1 \<and> nLoadsMax ld' = nLoadsMax ld \<and> cause ld' = cause ld
         \<and> inBounds ld'
         \<and> on ld' ! k = False \<and> flag ld' ! k = True \<and> lockSec ld' ! k = 0
         \<and> solarMode ld' ! k = (if gmode = - 1 then True else dr gmode)
         \<and> name ld' ! k = nm \<and> powerW ld' ! k = pw \<and> lockOnSec ld' ! k = lon
         \<and> lockOffSec ld' ! k = loff \<and> gpioOut ld' ! k = gout \<and> gpioMode ld' ! k = gmode
         \<and> radioModel ld' ! k = rm \<and> channel ld' ! k = ch
         \<and> (\<forall>i. i < k \<longrightarrow>
               name ld' ! i = name ld ! i \<and> powerW ld' ! i = powerW ld ! i
               \<and> lockOnSec ld' ! i = lockOnSec ld ! i \<and> lockOffSec ld' ! i = lockOffSec ld ! i
               \<and> gpioOut ld' ! i = gpioOut ld ! i \<and> gpioMode ld' ! i = gpioMode ld ! i
               \<and> radioModel ld' ! i = radioModel ld ! i \<and> channel ld' ! i = channel ld ! i
               \<and> solarMode ld' ! i = solarMode ld ! i \<and> flag ld' ! i = flag ld ! i
               \<and> on ld' ! i = on ld ! i \<and> lockSec ld' ! i = lockSec ld ! i)"
proof -
  have room: "nLoads ld < nLoadsMax ld"
    using assms(2) by (simp add: add_ok_iff)
  have k: "k < N_LOADS_MAX" "int k = nLoads ld"
    using assms(1,4) room unfolding inBounds_def by linarith+
  have len: "length (name ld) = N_LOADS_MAX" "length (powerW ld) = N_LOADS_MAX"
    "length (lockOnSec ld) = N_LOADS_MAX" "length (lockOffSec ld) = N_LOADS_MAX"
    "length (gpioOut ld) = N_LOADS_MAX" "length (gpioMode ld) = N_LOADS_MAX"
    "length (radioModel ld) = N_LOADS_MAX" "length (channel ld) = N_LOADS_MAX"
    "length (solarMode ld) = N_LOADS_MAX" "length (flag ld) = N_LOADS_MAX"
    "length (on ld) = N_LOADS_MAX" "length (lockSec ld) = N_LOADS_MAX"
    using assms(1) by (simp_all add: inBounds_def)
  have ld': "ld' = (ld\<lparr>name := (name ld)[k := nm],
                    powerW := (powerW ld)[k := pw],
                    lockOnSec := (lockOnSec ld)[k := lon],
                    lockOffSec := (lockOffSec ld)[k := loff],
                    gpioOut := (gpioOut ld)[k := gout],
                    gpioMode := (gpioMode ld)[k := gmode],
                    radioModel := (radioModel ld)[k := rm],
                    channel := (channel ld)[k := ch],
                    flag := (flag ld)[k := True],
                    on := (on ld)[k := False],
                    lockSec := (lockSec ld)[k := 0],
                    solarMode := (solarMode ld)[k := (if gmode = - 1 then True else dr gmode)],
                    nLoads := nLoads ld + 1\<rparr>)"
    using room k(1) len unfolding assms(3) assms(4) [symmetric] add_def
    by (simp add: Let_def assms(4) [symmetric])
  have inb: "inBounds ld'"
    using assms(1) room unfolding ld' inBounds_def by simp
  show ?thesis
    using k(1) len inb unfolding ld' by simp
qed

theorem add_registers_next_slot_witness:
  "inBounds exLoads
   \<and> fst (add (\<lambda>pin. False) ''fan'' 40 10 20 (- 1) (- 1) RADIO_GMOMXEN 3 exLoads) = 0
   \<and> nLoads (fst (snd (add (\<lambda>pin. False) ''fan'' 40 10 20 (- 1) (- 1) RADIO_GMOMXEN 3 exLoads))) = 3
   \<and> solarMode (fst (snd (add (\<lambda>pin. False) ''fan'' 40 10 20 (- 1) (- 1) RADIO_GMOMXEN 3 exLoads))) ! 2
   \<and> \<not> on (fst (snd (add (\<lambda>pin. False) ''fan'' 40 10 20 (- 1) (- 1) RADIO_GMOMXEN 3 exLoads))) ! 2"
proof -
  have h1: "inBounds exLoads"
    by (simp add: inBounds_def exLoads_def N_LOADS_MAX_def)
  have h2: "fst (add (\<lambda>pin. False) ''fan'' 40 10 20 (- 1) (- 1) RADIO_GMOMXEN 3 exLoads) = 0"
    by (simp add: add_ok_iff exLoads_def)
  have n: "nLoads exLoads = 2" "nat (nLoads exLoads) = 2"
    by (simp_all add: exLoads_def)
  from add_registers_next_slot [OF h1 h2 refl refl]
  show ?thesis using h1 h2 n by simp
qed

section \<open>Properties of \<^verbatim>\<open>Radio::send\<close>\<close>

text \<open>Whatever the protocol and the channel, \<^verbatim>\<open>Radio::send\<close> returns -1: the value that
  \<^verbatim>\<open>sendGmomxen\<close> hands back is overwritten by the \<^verbatim>\<open>default\<close> branch.\<close>

lemma send_always_fails: "fst (send rd radioType chan setToOn) = - 1"
  by (simp add: send_def Let_def split: prod.splits)

lemma send_transmits:
  "1 \<le> chan \<Longrightarrow> chan \<le> 3 \<Longrightarrow> snd (send rd RADIO_GMOMXEN chan setToOn) \<noteq> []"
  by (simp add: send_def sendGmomxen_def N_CHANNELS_def NUM_REPEATS_def sendRepetition_def
      Let_def numeral_eq_Suc split: prod.splits)

text \<open>
  C5. The claim does not hold of the code. For the protocol \<^verbatim>\<open>RADIO_GMOMXEN\<close> and channel 1
  the code is transmitted and \<^verbatim>\<open>Radio::send\<close> still returns -1, the failure indicator.
\<close>

theorem send_gmomxen_channel_1_returns_failure:
  "fst (send exRadio RADIO_GMOMXEN 1 True) = - 1 \<and> snd (send exRadio RADIO_GMOMXEN 1 True) \<noteq> []"
  by (simp add: send_always_fails send_transmits)

section \<open>Properties of \<^verbatim>\<open>Loads::activate\<close>\<close>

lemma clear_next:
  assumes "n < length fl" "fl ! n \<or> b"
  shows "(replicate n False @ drop n fl)[n := False] = replicate (Suc n) False @ drop (Suc n) fl"
proof -
  have "drop n fl = fl ! n # drop (Suc n) fl"
    using assms(1) by (simp add: Cons_nth_drop_Suc)
  then show ?thesis
    by (simp add: list_update_append replicate_append_same)
qed

lemma clear_skip:
  assumes "n < length fl" "\<not> fl ! n"
  shows "replicate n False @ drop n fl = replicate (Suc n) False @ drop (Suc n) fl"
proof -
  have "drop n fl = fl ! n # drop (Suc n) fl"
    using assms(1) by (simp add: Cons_nth_drop_Suc)
  with assms(2) show ?thesis
    by (simp add: replicate_append_same)
qed

lemma cleared_nth:
  "n \<le> length fl \<Longrightarrow> i < length fl \<Longrightarrow>
     (replicate n False @ drop n fl) ! i = (if i < n then False else fl ! i)"
  by (simp add: nth_append)

lemma activateLoad_step:
  assumes "n < length (flag ld)"
  shows "activateLoad ct rd cv n (ld\<lparr>flag := replicate n False @ drop n (flag ld)\<rparr>, out)
         = (ld\<lparr>flag := replicate (Suc n) False @ drop (Suc n) (flag ld)\<rparr>,
            out @ loadOutput ct rd cv ld n)"
proof -
  have cur: "(replicate n False @ drop n (flag ld)) ! n = flag ld ! n"
    using assms by (simp add: nth_append)
  show ?thesis
  proof (cases "flag ld ! n \<or> flagRefresh ct")
    case True
    from clear_next [OF assms, of "flagRefresh ct"] True
    have upd: "(replicate n False @ drop n (flag ld))[n := False]
             = replicate (Suc n) False @ drop (Suc n) (flag ld)" by simp
    show ?thesis
      using True
      by (simp add: activateLoad_def Let_def cur upd loadOutput_def loadCommands_def
          print_def printRefr_def)
  next
    case False
    then have off: "\<not> flag ld ! n" by simp
    have "activateLoad ct rd cv n (ld\<lparr>flag := replicate n False @ drop n (flag ld)\<rparr>, out)
            = (ld\<lparr>flag := replicate n False @ drop n (flag ld)\<rparr>, out)"
      using False by (simp add: activateLoad_def Let_def cur)
    also have "\<dots> = (ld\<lparr>flag := replicate (Suc n) False @ drop (Suc n) (flag ld)\<rparr>,
                       out @ loadOutput ct rd cv ld n)"
      using False by (simp only: clear_skip [OF assms off] loadOutput_def) simp
    finally show ?thesis .
  qed
qed

lemma fold_activateLoad:
  "n \<le> length (flag ld) \<Longrightarrow>
     fold (activateLoad ct rd cv) [0..<n] (ld, out)
       = (ld\<lparr>flag := replicate n False @ drop n (flag ld)\<rparr>,
          out @ concat (map (loadOutput ct rd cv ld) [0..<n]))"
proof (induction n)
  case 0
  show ?case by simp
next
  case (Suc n)
  then have "n < length (flag ld)" by simp
  from activateLoad_step [OF this] Suc show ?case by simp
qed

lemma activate_eq:
  assumes "inBounds ld"
  shows "activate ct rd cv ld
           = (ld\<lparr>flag := replicate (nat (nLoads ld)) False @ drop (nat (nLoads ld)) (flag ld)\<rparr>,
              concat (map (loadOutput ct rd cv ld) [0..<nat (nLoads ld)]))"
proof -
  have "nat (nLoads ld) \<le> length (flag ld)"
    using assms unfolding inBounds_def by linarith
  from fold_activateLoad [OF this, of ct rd cv "[]"] show ?thesis
    by (simp add: activate_def)
qed

lemma inBounds_activate:
  assumes "inBounds ld"
  shows "inBounds (fst (activate ct rd cv ld))"
proof -
  have "nat (nLoads ld) \<le> length (flag ld)"
    using assms unfolding inBounds_def by linarith
  then show ?thesis
    using assms by (simp add: activate_eq [OF assms] inBounds_def)
qed

lemma commands_loadOutput:
  "filter (\<lambda>e. \<not> is_log e) (loadOutput ct rd cv ld i)
     = (if flag ld ! i \<or> flagRefresh ct then filter (\<lambda>e. \<not> is_log e) (loadCommands rd ld i) else [])"
  by (simp add: loadOutput_def print_def printRefr_def is_log_def)

lemma loadOutput_write:
  "flagRefresh ct \<Longrightarrow> gpioOut ld ! i \<noteq> - 1 \<Longrightarrow>
     DigitalWrite (gpioOut ld ! i) (on ld ! i) \<in> set (loadOutput ct rd cv ld i)"
  by (simp add: loadOutput_def loadCommands_def)

lemma loadOutput_radio:
  "flagRefresh ct \<Longrightarrow> radioModel ld ! i \<noteq> NO_RADIO \<Longrightarrow>
     set (snd (send rd (radioModel ld ! i) (channel ld ! i) (on ld ! i)))
       \<subseteq> set (loadOutput ct rd cv ld i)"
  by (auto simp: loadOutput_def loadCommands_def)

text \<open>
  C8. \<^verbatim>\<open>Loads::activate\<close> changes nothing of a \<^verbatim>\<open>Loads\<close> object but the flags, which it
  clears for every registered load. A second call changes nothing at all; with the refresh
  flag set it emits the same commands (pin writes and radio codes) as the first call, and
  with the refresh flag clear it emits nothing. With the refresh flag set, the output pin of
  every registered load that has one is written with the load's on/off state, and the code
  for that state is sent to every registered load that has a radio model.
\<close>

theorem activate_only_clears_flags:
  assumes "inBounds ld" and "ld' = fst (activate ct rd cv ld)"
  shows "ld' = ld\<lparr>flag := flag ld'\<rparr>
         \<and> (\<forall>i. i < nat (nLoads ld) \<longrightarrow> \<not> flag ld' ! i)
         \<and> (\<forall>i. nat (nLoads ld) \<le> i \<longrightarrow> flag ld' ! i = flag ld ! i)
         \<and> fst (activate ct2 rd2 cv2 ld') = ld'
         \<and> (flagRefresh ct \<longrightarrow>
              filter (\<lambda>e. \<not> is_log e) (snd (activate ct rd cv ld'))
                = filter (\<lambda>e. \<not> is_log e) (snd (activate ct rd cv ld)))
         \<and> (\<not> flagRefresh ct \<longrightarrow> snd (activate ct rd cv ld') = [])
         \<and> (flagRefresh ct \<longrightarrow>
              (\<forall>i. i < nat (nLoads ld) \<and> gpioOut ld ! i \<noteq> - 1 \<longrightarrow>
                 DigitalWrite (gpioOut ld ! i) (on ld ! i) \<in> set (snd (activate ct rd cv ld)))
              \<and> (\<forall>i. i < nat (nLoads ld) \<and> radioModel ld ! i \<noteq> NO_RADIO \<longrightarrow>
                 set (snd (send rd (radioModel ld ! i) (channel ld ! i) (on ld ! i)))
                   \<subseteq> set (snd (activate ct rd cv ld))))"
proof -
  let ?n = "nat (nLoads ld)"
  have n: "?n \<le> length (flag ld)"
    using assms(1) unfolding inBounds_def by linarith
  have ld': "ld' = ld\<lparr>flag := replicate ?n False @ drop ?n (flag ld)\<rparr>"
    using assms by (simp add: activate_eq)
  have inb: "inBounds ld'"
    using assms inBounds_activate by simp
  have nl: "nLoads ld' = nLoads ld" by (simp add: ld')
  have fl: "flag ld' = replicate ?n False @ drop ?n (flag ld)" by (simp add: ld')
  have cleared: "\<not> flag ld' ! i" if "i < ?n" for i
    using that by (simp add: fl nth_append)
  have kept: "flag ld' ! i = flag ld ! i" if "?n \<le> i" for i
    using that n by (simp add: fl nth_append)
  have again: "replicate ?n False @ drop ?n (flag ld') = flag ld'"
    using n by (simp add: fl)
  have idem: "fst (activate ct2 rd2 cv2 ld') = ld'"
    by (simp add: activate_eq [OF inb] nl again)
  have cmds: "loadCommands rd ld' i = loadCommands rd ld i" for i
    by (simp add: ld' loadCommands_def)
  have refresh: "filter (\<lambda>e. \<not> is_log e) (snd (activate ct rd cv ld'))
                   = filter (\<lambda>e. \<not> is_log e) (snd (activate ct rd cv ld))" if "flagRefresh ct"
    using that
    by (simp add: activate_eq [OF inb] activate_eq [OF assms(1)] nl filter_concat
        comp_def commands_loadOutput cmds)
  have quiet: "snd (activate ct rd cv ld') = []" if "\<not> flagRefresh ct"
    using that cleared by (simp add: activate_eq [OF inb] nl loadOutput_def)
  have frame: "ld' = ld\<lparr>flag := flag ld'\<rparr>"
    by (simp add: ld')
  have resend: "DigitalWrite (gpioOut ld ! i) (on ld ! i) \<in> set (snd (activate ct rd cv ld))"
    if "flagRefresh ct" "i < ?n" "gpioOut ld ! i \<noteq> - 1" for i
  proof -
    have "DigitalWrite (gpioOut ld ! i) (on ld ! i) \<in> set (loadOutput ct rd cv ld i)"
      using that(1,3) by (rule loadOutput_write)
    moreover have "i \<in> set [0..<?n]" using that(2) by simp
    ultimately show ?thesis
      unfolding activate_eq [OF assms(1)] by (simp only: snd_conv set_concat set_map) blast
  qed
  have recode: "set (snd (send rd (radioModel ld ! i) (channel ld ! i) (on ld ! i)))
                  \<subseteq> set (snd (activate ct rd cv ld))"
    if "flagRefresh ct" "i < ?n" "radioModel ld ! i \<noteq> NO_RADIO" for i
  proof -
    have "set (snd (send rd (radioModel ld ! i) (channel ld ! i) (on ld ! i)))
            \<subseteq> set (loadOutput ct rd cv ld i)"
      using that(1,3) by (rule loadOutput_radio)
    moreover have "i \<in> set [0..<?n]" using that(2) by simp
    ultimately show ?thesis
      unfolding activate_eq [OF assms(1)] by (simp only: snd_conv set_concat set_map) blast
  qed
  from frame cleared kept idem refresh quiet resend recode show ?thesis by blast
qed

theorem activate_only_clears_flags_witness:
  "inBounds exLoads \<and> flagRefresh exTime \<and> flag exLoads ! 0
   \<and> \<not> flag (fst (activate exTime exRadio (exValues 0 0) exLoads)) ! 0
   \<and> lockSec (fst (activate exTime exRadio (exValues 0 0) exLoads)) = [0, 10, 0]
   \<and> on (fst (activate exTime exRadio (exValues 0 0) exLoads)) = [True, True, False]
   \<and> DigitalWrite 7 True \<in> set (snd (activate exTime exRadio (exValues 0 0) exLoads))"
proof -
  let ?ld' = "fst (activate exTime exRadio (exValues 0 0) exLoads)"
  have h1: "inBounds exLoads"
    by (simp add: inBounds_def exLoads_def N_LOADS_MAX_def)
  have h2: "flagRefresh exTime"
    by (simp add: exTime_def)
  have e: "flag exLoads ! 0" "nat (nLoads exLoads) = 2" "gpioOut exLoads ! 0 = 7"
    "on exLoads ! 0 = True" "lockSec exLoads = [0, 10, 0]" "on exLoads = [True, True, False]"
    by (simp_all add: exLoads_def)
  note inst = activate_only_clears_flags [OF h1 refl, of exTime exRadio "exValues 0 0"]
  from inst have fr: "?ld' = exLoads\<lparr>flag := flag ?ld'\<rparr>" by blast
  have "lockSec ?ld' = lockSec (exLoads\<lparr>flag := flag ?ld'\<rparr>)"
    using fr by (rule arg_cong)
  then have l: "lockSec ?ld' = [0, 10, 0]" by (simp add: e)
  have "on ?ld' = on (exLoads\<lparr>flag := flag ?ld'\<rparr>)"
    using fr by (rule arg_cong)
  then have o: "on ?ld' = [True, True, False]" by (simp add: e)
  from inst e(2) have c: "\<not> flag ?ld' ! 0" by simp
  from inst h2 e have w: "DigitalWrite 7 True \<in> set (snd (activate exTime exRadio (exValues 0 0) exLoads))"
    by force
  from h1 h2 e(1) c l o w show ?thesis by blast
qed

section \<open>Properties of \<^verbatim>\<open>Values::compute\<close>\<close>


lemma constrain_id: "low \<le> amt \<Longrightarrow> amt \<le> high \<Longrightarrow> constrain amt low high = amt"
  by (simp add: constrain_def)

lemma clip_fields:
  "VxEff (clip v) = constrain_flt (VxEff v) 0 999" "IgEff (clip v) = constrain_flt (IgEff v) 0 99"
  "IcEff (clip v) = constrain_flt (IcEff v) 0 99" "Pg (clip v) = constrain (Pg v) 0 9999"
  "Pc (clip v) = constrain (Pc v) (- 9999) 0" "Pn (clip v) = constrain (Pn v) (- 9999) 9999"
  "PFg (clip v) = constrain_flt (PFg v) 0 0.99" "PFc (clip v) = constrain_flt (PFc v) 0 0.99"
  "interval (clip v) = interval v" "PgFilt (clip v) = PgFilt v" "PcFilt (clip v) = PcFilt v"
  "TimeConst (clip v) = TimeConst v"
  by (simp_all add: clip_def Let_def)

lemma filterPowers_frame:
  "VxEff (filterPowers v) = VxEff v" "IgEff (filterPowers v) = IgEff v"
  "IcEff (filterPowers v) = IcEff v" "Pg (filterPowers v) = Pg v" "Pc (filterPowers v) = Pc v"
  "Pn (filterPowers v) = Pn v" "PFg (filterPowers v) = PFg v" "PFc (filterPowers v) = PFc v"
  by (simp_all add: filterPowers_def Let_def)

lemma setInterval_frame:
  "VxEff (setInterval cm t v) = VxEff v" "IgEff (setInterval cm t v) = IgEff v"
  "IcEff (setInterval cm t v) = IcEff v" "Pg (setInterval cm t v) = Pg v"
  "Pc (setInterval cm t v) = Pc v" "Pn (setInterval cm t v) = Pn v"
  "PFg (setInterval cm t v) = PFg v" "PFc (setInterval cm t v) = PFc v"
  "PgFilt (setInterval cm t v) = PgFilt v" "PcFilt (setInterval cm t v) = PcFilt v"
  "PnFilt (setInterval cm t v) = PnFilt v" "Margin (setInterval cm t v) = Margin v"
  by (simp_all add: setInterval_def Let_def)

lemma computeOffset_frame:
  "interval (computeOffset cm t v) = interval v" "PgFilt (computeOffset cm t v) = PgFilt v"
  "PcFilt (computeOffset cm t v) = PcFilt v" "TimeConst (computeOffset cm t v) = TimeConst v"
  "MaxConsumpt (computeOffset cm t v) = MaxConsumpt v"
  by (simp_all add: computeOffset_def Let_def)

lemma computeGenerated_frame:
  "interval (computeGenerated cm v) = interval v" "PgFilt (computeGenerated cm v) = PgFilt v"
  "PcFilt (computeGenerated cm v) = PcFilt v" "TimeConst (computeGenerated cm v) = TimeConst v"
  "MaxConsumpt (computeGenerated cm v) = MaxConsumpt v"
  by (simp_all add: computeGenerated_def Let_def)

lemma computeConsumed_frame:
  "interval (computeConsumed cm v) = interval v" "PgFilt (computeConsumed cm v) = PgFilt v"
  "PcFilt (computeConsumed cm v) = PcFilt v" "TimeConst (computeConsumed cm v) = TimeConst v"
  "MaxConsumpt (computeConsumed cm v) = MaxConsumpt v"
  "Pg (computeConsumed cm v) = Pg v"
  by (simp_all add: computeConsumed_def Let_def)

lemma netPower_frame:
  "interval (netPower sm v) = interval v" "PgFilt (netPower sm v) = PgFilt v"
  "PcFilt (netPower sm v) = PcFilt v" "TimeConst (netPower sm v) = TimeConst v"
  "MaxConsumpt (netPower sm v) = MaxConsumpt v"
  "Pn (netPower sm v) = Pg (netPower sm v) + Pc (netPower sm v)"
  by (simp_all add: netPower_def Let_def)

lemma netPower_simul:
  "mode sm = SIMUL_POWER \<Longrightarrow> Pg (netPower sm v) = real_of_int (Pg_simul sm)"
  "mode sm = SIMUL_POWER \<Longrightarrow> Pc (netPower sm v) = - real_of_int (Pc_simul sm)"
  "mode sm \<noteq> SIMUL_POWER \<Longrightarrow> Pg (netPower sm v) = Pg v"
  "mode sm \<noteq> SIMUL_POWER \<Longrightarrow> Pc (netPower sm v) = Pc v"
  by (simp_all add: netPower_def Let_def)

lemma computeGenerated_sign: "0 \<le> Pg (computeGenerated cm v)"
  by (simp add: computeGenerated_def Let_def abs_macro_def)

lemma computeConsumed_sign: "Pc (computeConsumed cm v) \<le> 0"
  by (simp add: computeConsumed_def Let_def abs_macro_def)

lemma computeRaw_frame:
  "interval (computeRaw sm cm t v) = interval v" "PgFilt (computeRaw sm cm t v) = PgFilt v"
  "PcFilt (computeRaw sm cm t v) = PcFilt v" "TimeConst (computeRaw sm cm t v) = TimeConst v"
  "MaxConsumpt (computeRaw sm cm t v) = MaxConsumpt v"
  "Pn (computeRaw sm cm t v) = Pg (computeRaw sm cm t v) + Pc (computeRaw sm cm t v)"
  by (simp_all add: computeRaw_def netPower_frame computeConsumed_frame computeGenerated_frame
      computeOffset_frame)

lemma computeRaw_simul:
  "mode sm = SIMUL_POWER \<Longrightarrow> Pg (computeRaw sm cm t v) = real_of_int (Pg_simul sm)"
  "mode sm = SIMUL_POWER \<Longrightarrow> Pc (computeRaw sm cm t v) = - real_of_int (Pc_simul sm)"
  by (simp_all add: computeRaw_def netPower_simul)

lemma computeRaw_signs:
  "mode sm \<noteq> SIMUL_POWER \<Longrightarrow> 0 \<le> Pg (computeRaw sm cm t v)"
  "mode sm \<noteq> SIMUL_POWER \<Longrightarrow> Pc (computeRaw sm cm t v) \<le> 0"
  by (simp_all add: computeRaw_def netPower_simul computeConsumed_frame computeGenerated_sign
      computeConsumed_sign)

lemma filterPowers_first:
  "interval v = 0 \<Longrightarrow> PgFilt (filterPowers v) = Pg v"
  "interval v = 0 \<Longrightarrow> PcFilt (filterPowers v) = Pc v"
  "interval v = 0 \<Longrightarrow> PnFilt (filterPowers v) = Pn v"
  by (simp_all add: filterPowers_def Let_def)

lemma filterPowers_later:
  "interval v \<noteq> 0 \<Longrightarrow> PnFilt (filterPowers v) = PgFilt (filterPowers v) + PcFilt (filterPowers v)"
  by (simp add: filterPowers_def Let_def)

lemma filterPowers_margin: "Margin (filterPowers v) = MaxConsumpt v + PcFilt (filterPowers v)"
  by (simp add: filterPowers_def Let_def)

lemma compute_valid:
  "validCycle cm \<Longrightarrow>
     compute sm cm t0 t1 v = Inr (setInterval cm t1 (filterPowers (clip (computeRaw sm cm t0 v))))"
  by (simp add: compute_def validCycle_def)

lemma compute_Inr:
  "compute sm cm t0 t1 v = Inr v' \<Longrightarrow>
     v' = setInterval cm t1 (filterPowers (clip (computeRaw sm cm t0 v)))"
  by (simp add: compute_def split: if_splits)


lemma validCycle_exMeasure: "validCycle exMeasure"
  by (simp add: validCycle_def exMeasure_def SAMPLES_PER_CYCLE_def)

subsection \<open>NaN through the macros\<close>






lemma rms_NaN_iff:
  "rms cm xs = NaN \<longleftrightarrow>
     real_of_int (sumSquares xs (offsetOf cm) (nat (numSamples cm))) / real_of_int (numSamples cm) < 0"
  by (simp add: rms_def sqrt_flt_def)

subsection \<open>The values that the square roots reach, before clipping\<close>

lemma computeOffset_rms_fields:
  "VxRatio (computeOffset cm t v) = VxRatio v" "IgRatio (computeOffset cm t v) = IgRatio v"
  "IcRatio (computeOffset cm t v) = IcRatio v"
  by (simp_all add: computeOffset_def Let_def)






subsection \<open>Samples in the range of the converter\<close>

text \<open>With at most 40 samples, each from 0 to 4096 (the largest resolution that the note
  at \<^verbatim>\<open>ADC_RESOLUTION_STEPS\<close> allows), no sum wraps around and no RMS value is NaN.\<close>

lemma sumSamples_Suc: "sumSamples xs (Suc n) = long32 (sumSamples xs n + xs ! n)"
  by (simp add: sumSamples_def)

lemma sumSquares_Suc:
  "sumSquares xs off (Suc n)
     = long32 (sumSquares xs off n + long32 (long32 (xs ! n - off) * long32 (xs ! n - off)))"
  by (simp add: sumSquares_def Let_def)

lemma long32_small: "- 2147483648 \<le> x \<Longrightarrow> x \<le> 2147483647 \<Longrightarrow> long32 x = x"
  by (simp add: long32_def)

lemma sumSamples_in_range:
  assumes "\<forall>i<n. 0 \<le> xs ! i \<and> xs ! i \<le> 4096" and "n \<le> 40"
  shows "0 \<le> sumSamples xs n \<and> sumSamples xs n \<le> 4096 * int n"
  using assms
proof (induction n)
  case 0
  show ?case by (simp add: sumSamples_def)
next
  case (Suc n)
  then have ih: "0 \<le> sumSamples xs n" "sumSamples xs n \<le> 4096 * int n"
    and x: "0 \<le> xs ! n" "xs ! n \<le> 4096" and n: "int n \<le> 39"
    by simp_all
  have "long32 (sumSamples xs n + xs ! n) = sumSamples xs n + xs ! n"
    by (rule long32_small) (use ih x n in linarith)+
  with ih x show ?case
    by (simp add: sumSamples_Suc)
qed

lemma square_small:
  fixes d :: int
  assumes "\<bar>d\<bar> \<le> 4096"
  shows "0 \<le> d * d \<and> d * d \<le> 16777216"
proof -
  have "\<bar>d\<bar> * \<bar>d\<bar> \<le> 4096 * 4096"
    using assms by (intro mult_mono) simp_all
  then show ?thesis by (simp add: abs_mult_self_eq)
qed

lemma sumSquares_in_range:
  assumes "\<forall>i<n. \<bar>xs ! i - off\<bar> \<le> 4096" and "n \<le> 40"
  shows "0 \<le> sumSquares xs off n \<and> sumSquares xs off n \<le> 16777216 * int n"
  using assms
proof (induction n)
  case 0
  show ?case by (simp add: sumSquares_def)
next
  case (Suc n)
  then have ih: "0 \<le> sumSquares xs off n" "sumSquares xs off n \<le> 16777216 * int n"
    and d: "\<bar>xs ! n - off\<bar> \<le> 4096" and n: "int n \<le> 39"
    by simp_all
  let ?d = "xs ! n - off"
  have v: "long32 ?d = ?d"
    by (rule long32_small) (use d in linarith)+
  have sq: "0 \<le> ?d * ?d" "?d * ?d \<le> 16777216"
    using square_small [OF d] by simp_all
  have q: "long32 (?d * ?d) = ?d * ?d"
    by (rule long32_small) (use sq in linarith)+
  have "long32 (sumSquares xs off n + ?d * ?d) = sumSquares xs off n + ?d * ?d"
    by (rule long32_small) (use ih sq n in linarith)+
  with ih sq show ?case
    by (simp add: sumSquares_Suc v q)
qed

lemma offsetOf_in_range:
  assumes "0 < numSamples cm" and "numSamples cm \<le> 40"
    and "\<forall>i<nat (numSamples cm). 0 \<le> V0 cm ! i \<and> V0 cm ! i \<le> 4096"
  shows "0 \<le> offsetOf cm \<and> offsetOf cm \<le> 4096"
proof -
  let ?n = "nat (numSamples cm)"
  let ?s = "sumSamples (V0 cm) ?n"
  have n: "?n \<le> 40" "int ?n = numSamples cm"
    using assms(1,2) by simp_all
  from sumSamples_in_range [OF assms(3) n(1)]
  have s: "0 \<le> ?s" "?s \<le> 4096 * numSamples cm"
    unfolding n(2) by simp_all
  have off: "offsetOf cm = ?s div numSamples cm"
    using s(1) assms(1) by (simp add: offsetOf_def c_div_def)
  have "?s div numSamples cm \<le> (4096 * numSamples cm) div numSamples cm"
    using s(2) assms(1) by (intro zdiv_mono1) simp_all
  then have "?s div numSamples cm \<le> 4096"
    using assms(1) by simp
  moreover have "0 \<le> ?s div numSamples cm"
    using s(1) assms(1) by (simp add: pos_imp_zdiv_nonneg_iff)
  ultimately show ?thesis by (simp add: off)
qed

lemma rms_defined_in_range:
  assumes "0 < numSamples cm" and "numSamples cm \<le> 40"
    and "\<forall>i<nat (numSamples cm). 0 \<le> V0 cm ! i \<and> V0 cm ! i \<le> 4096"
    and "\<forall>i<nat (numSamples cm). 0 \<le> xs ! i \<and> xs ! i \<le> 4096"
  shows "rms cm xs \<noteq> NaN"
proof -
  let ?n = "nat (numSamples cm)"
  have n: "?n \<le> 40" using assms(2) by simp
  from offsetOf_in_range [OF assms(1-3)]
  have off: "0 \<le> offsetOf cm" "offsetOf cm \<le> 4096" by simp_all
  have "\<forall>i<?n. \<bar>xs ! i - offsetOf cm\<bar> \<le> 4096"
    using assms(4) off by (auto simp: abs_le_iff)
  from sumSquares_in_range [OF this n]
  have "0 \<le> sumSquares xs (offsetOf cm) ?n" by simp
  then have "0 \<le> real_of_int (sumSquares xs (offsetOf cm) ?n) / real_of_int (numSamples cm)"
    using assms(1) by simp
  then show ?thesis
    by (simp add: rms_NaN_iff not_less)
qed

subsection \<open>The clipped outputs\<close>




subsection \<open>The filtered net power\<close>

text \<open>
  C6, as the claim states it, fails on the first cycle: after the serial command
  \<^verbatim>\<open>P 20000, 5000\<close> the first call of \<^verbatim>\<open>Values::compute\<close> leaves \<^verbatim>\<open>PgFilt = 9999\<close>,
  \<^verbatim>\<open>PcFilt = -5000\<close> and \<^verbatim>\<open>PnFilt = 9999\<close>, since \<^verbatim>\<open>Pn\<close> is the clipped sum of the powers
  before clipping.
\<close>

theorem first_cycle_net_is_not_the_sum:
  "\<not> isl exFirstCycle \<and> PgFilt (projr exFirstCycle) = 9999 \<and> PcFilt (projr exFirstCycle) = - 5000
   \<and> PnFilt (projr exFirstCycle) = 9999
   \<and> PnFilt (projr exFirstCycle) \<noteq> PgFilt (projr exFirstCycle) + PcFilt (projr exFirstCycle)"
proof -
  let ?v0 = "Values_begin 230 20 20 3000 Values_new"
  let ?r = "computeRaw (exSimul 20000 5000) exMeasure 0 ?v0"
  have eq: "exFirstCycle = Inr (setInterval exMeasure 0 (filterPowers (clip ?r)))"
    unfolding exFirstCycle_def using validCycle_exMeasure by (rule compute_valid)
  have m: "mode (exSimul 20000 5000) = SIMUL_POWER" "Pg_simul (exSimul 20000 5000) = 20000"
    "Pc_simul (exSimul 20000 5000) = 5000"
    by (simp_all add: exSimul_def)
  have i: "interval (clip ?r) = 0"
    by (simp add: clip_fields computeRaw_frame Values_begin_def Values_new_def)
  have "PgFilt (projr exFirstCycle) = 9999" "PcFilt (projr exFirstCycle) = - 5000"
    "PnFilt (projr exFirstCycle) = 9999"
    unfolding eq
    by (simp_all add: setInterval_frame filterPowers_first [OF i] clip_fields computeRaw_frame
        computeRaw_simul m constrain_def)
  then show ?thesis by (simp add: eq)
qed

text \<open>
  C6, amended. When a previous interval is recorded, \<^verbatim>\<open>Values::compute\<close> leaves
  \<^verbatim>\<open>PnFilt = PgFilt + PcFilt\<close>. On the first cycle it leaves the three filtered powers
  equal to the three clipped powers, and \<^verbatim>\<open>PnFilt = PgFilt + PcFilt\<close> holds there when the
  generated power before clipping is in [0, 9999] and the consumed power before clipping in
  [-9999, 0].
\<close>

theorem filtered_net_is_sum:
  assumes "compute sm cm t0 t1 v = Inr v'"
  shows "(interval v \<noteq> 0 \<longrightarrow> PnFilt v' = PgFilt v' + PcFilt v')
         \<and> (interval v = 0 \<longrightarrow> PgFilt v' = Pg v' \<and> PcFilt v' = Pc v' \<and> PnFilt v' = Pn v')
         \<and> (interval v = 0 \<and> 0 \<le> Pg (computeRaw sm cm t0 v) \<and> Pg (computeRaw sm cm t0 v) \<le> 9999
              \<and> - 9999 \<le> Pc (computeRaw sm cm t0 v) \<and> Pc (computeRaw sm cm t0 v) \<le> 0
            \<longrightarrow> PnFilt v' = PgFilt v' + PcFilt v')"
proof -
  let ?r = "computeRaw sm cm t0 v"
  have v': "v' = setInterval cm t1 (filterPowers (clip ?r))"
    using assms by (rule compute_Inr)
  have iv: "interval (clip ?r) = interval v"
    by (simp add: clip_fields computeRaw_frame)
  have later: "PnFilt v' = PgFilt v' + PcFilt v'" if "interval v \<noteq> 0"
    using that iv filterPowers_later [of "clip ?r"] by (simp add: v' setInterval_frame)
  have first: "PgFilt v' = Pg v' \<and> PcFilt v' = Pc v' \<and> PnFilt v' = Pn v'" if "interval v = 0"
    using that iv by (simp add: v' setInterval_frame filterPowers_first filterPowers_frame)
  have unclipped: "PnFilt v' = PgFilt v' + PcFilt v'"
    if "interval v = 0" "0 \<le> Pg ?r" "Pg ?r \<le> 9999" "- 9999 \<le> Pc ?r" "Pc ?r \<le> 0"
  proof -
    have "Pn ?r = Pg ?r + Pc ?r" by (simp add: computeRaw_frame)
    with that have "- 9999 \<le> Pn ?r" "Pn ?r \<le> 9999" by simp_all
    then have "Pn (clip ?r) = Pg (clip ?r) + Pc (clip ?r)"
      using that \<open>Pn ?r = Pg ?r + Pc ?r\<close> by (simp add: clip_fields constrain_id)
    with that(1) iv show ?thesis
      by (simp add: v' setInterval_frame filterPowers_first)
  qed
  from later first unclipped show ?thesis by blast
qed

theorem filtered_net_is_sum_witness:
  "compute (exSimul 300 100) exMeasure 0 0 Values_new
     = Inr (setInterval exMeasure 0 (filterPowers (clip (computeRaw (exSimul 300 100) exMeasure 0 Values_new))))
   \<and> interval Values_new = 0
   \<and> Pg (computeRaw (exSimul 300 100) exMeasure 0 Values_new) = 300
   \<and> Pc (computeRaw (exSimul 300 100) exMeasure 0 Values_new) = - 100
   \<and> PnFilt (setInterval exMeasure 0 (filterPowers (clip (computeRaw (exSimul 300 100) exMeasure 0 Values_new))))
       = PgFilt (setInterval exMeasure 0 (filterPowers (clip (computeRaw (exSimul 300 100) exMeasure 0 Values_new))))
         + PcFilt (setInterval exMeasure 0 (filterPowers (clip (computeRaw (exSimul 300 100) exMeasure 0 Values_new))))"
proof -
  let ?r = "computeRaw (exSimul 300 100) exMeasure 0 Values_new"
  have h: "compute (exSimul 300 100) exMeasure 0 0 Values_new
             = Inr (setInterval exMeasure 0 (filterPowers (clip ?r)))"
    using validCycle_exMeasure by (rule compute_valid)
  have i: "interval Values_new = 0"
    by (simp add: Values_new_def)
  have m: "mode (exSimul 300 100) = SIMUL_POWER" "Pg_simul (exSimul 300 100) = 300"
    "Pc_simul (exSimul 300 100) = 100"
    by (simp_all add: exSimul_def)
  have p: "Pg ?r = 300" "Pc ?r = - 100"
    by (simp_all add: computeRaw_simul m)
  from filtered_net_is_sum [OF h] i p h show ?thesis by simp
qed

section \<open>Properties of \<^verbatim>\<open>CountTime::update\<close>\<close>

lemma int16_id: "- 32768 \<le> x \<Longrightarrow> x \<le> 32767 \<Longrightarrow> int16 x = x"
  by (simp add: int16_def)

lemma long32_id: "- 2147483648 \<le> x \<Longrightarrow> x \<le> 2147483647 \<Longrightarrow> long32 x = x"
  by (simp add: long32_def)

lemma random_range_bounds:
  assumes "0 \<le> v" "v \<le> 32767"
  shows "- v \<le> random_range (- v) v r \<and> random_range (- v) v r \<le> v"
proof (cases "v = 0")
  case True
  then show ?thesis by (simp add: random_range_def)
next
  case False
  with assms have pos: "0 < 2 * v" "2 * v \<le> 65534" by simp_all
  then have diff: "long32 (v - - v) = 2 * v"
    by (simp add: long32_id)
  have m: "0 \<le> int r mod (2 * v)" "int r mod (2 * v) < 2 * v"
    using pos by simp_all
  have "long32 (int r mod (2 * v) - v) = int r mod (2 * v) - v"
    by (rule long32_id) (use m pos in linarith)+
  then have "long32 (int r mod (2 * v) + - v) = int r mod (2 * v) - v"
    by simp
  with pos diff have "random_range (- v) v r = int r mod (2 * v) - v"
    by (simp add: random_range_def Let_def)
  with m show ?thesis by linarith
qed

lemma tick_frame:
  "refreshPeriod_s (tickClock ct) = refreshPeriod_s ct"
  "varRefreshPeriod_s (tickClock ct) = varRefreshPeriod_s ct"
  "countRefresh_s (tickClock ct) = countRefresh_s ct"
  "flagRefresh (tickClock ct) = flagRefresh ct"
  "refreshPeriod_s (tickDecide ct) = refreshPeriod_s ct"
  "varRefreshPeriod_s (tickDecide ct) = varRefreshPeriod_s ct"
  "countRefresh_s (tickDecide ct) = countRefresh_s ct"
  "flagRefresh (tickDecide ct) = flagRefresh ct"
  by (simp_all add: tickClock_def tickDecide_def Let_def)

lemma tickRefresh_fires:
  assumes "\<not> flagRefresh ct" "flagRefresh (tickRefresh r ct)"
  shows "countRefresh_s (tickRefresh r ct)
           = int16 (long32 (refreshPeriod_s ct
               + random_range (- varRefreshPeriod_s ct) (varRefreshPeriod_s ct) r))"
  using assms by (simp add: tickRefresh_def Let_def split: if_splits)

lemma update_fires:
  assumes "flagRefresh (update now_us now_ms r ct)"
  shows "countRefresh_s (update now_us now_ms r ct)
           = int16 (long32 (refreshPeriod_s ct
               + random_range (- varRefreshPeriod_s ct) (varRefreshPeriod_s ct) r))"
proof -
  let ?ct1 = "ct\<lparr>flagOneSec := False, flagDecide := False, flagRefresh := False,
                   loopTime_us := now_us - prevLoopStart_us ct, prevLoopStart_us := now_us\<rparr>"
  let ?ct2 = "tickClock (?ct1\<lparr>lastTime := lastTime ?ct1 + 1000, flagOneSec := True\<rparr>)"
  let ?ct3 = "tickDecide (?ct2\<lparr>hhmmss := take 13 (fmt02d (hours ?ct2) @ '':'' @ fmt02d (minutes ?ct2)
                                           @ '':'' @ fmt02d (seconds ?ct2))\<rparr>)"
  have sec: "\<not> now_ms - lastTime ?ct1 < 1000"
    using assms by (auto simp: update_def Let_def split: if_splits)
  then have upd: "update now_us now_ms r ct = tickRefresh r ?ct3"
    by (simp add: update_def Let_def)
  have fr: "\<not> flagRefresh ?ct3" "refreshPeriod_s ?ct3 = refreshPeriod_s ct"
    "varRefreshPeriod_s ?ct3 = varRefreshPeriod_s ct"
    by (simp_all add: tick_frame)
  from assms have "flagRefresh (tickRefresh r ?ct3)" by (simp only: upd)
  from tickRefresh_fires [OF fr(1) this] show ?thesis
    by (simp only: upd fr)
qed

text \<open>
  C9. When the refresh countdown fires in \<^verbatim>\<open>CountTime::update\<close> (the call sets the refresh
  flag), the countdown is reset to a value from \<^verbatim>\<open>refreshPeriod_s - varRefreshPeriod_s\<close> to
  \<^verbatim>\<open>refreshPeriod_s + varRefreshPeriod_s\<close>, whatever \<^verbatim>\<open>random()\<close> draws. The jitter bound
  is taken to be a bound (not negative), and the two ends of the interval to be values of
  an \<^verbatim>\<open>int\<close>.
\<close>

theorem refresh_countdown_reset_within_jitter:
  assumes "0 \<le> varRefreshPeriod_s ct"
    and "- 32768 \<le> refreshPeriod_s ct - varRefreshPeriod_s ct"
    and "refreshPeriod_s ct + varRefreshPeriod_s ct \<le> 32767"
    and "flagRefresh (update now_us now_ms r ct)"
  shows "refreshPeriod_s ct - varRefreshPeriod_s ct \<le> countRefresh_s (update now_us now_ms r ct)
         \<and> countRefresh_s (update now_us now_ms r ct) \<le> refreshPeriod_s ct + varRefreshPeriod_s ct"
proof -
  let ?j = "random_range (- varRefreshPeriod_s ct) (varRefreshPeriod_s ct) r"
  have "varRefreshPeriod_s ct \<le> 32767"
    using assms(1-3) by linarith
  from random_range_bounds [OF assms(1) this, of r]
  have j: "- varRefreshPeriod_s ct \<le> ?j" "?j \<le> varRefreshPeriod_s ct" by simp_all
  with assms(2,3) have "int16 (long32 (refreshPeriod_s ct + ?j)) = refreshPeriod_s ct + ?j"
    by (simp add: long32_id int16_id)
  with j show ?thesis
    by (simp add: update_fires [OF assms(4)])
qed

theorem refresh_countdown_reset_within_jitter_witness:
  "0 \<le> varRefreshPeriod_s exTimeDue
   \<and> - 32768 \<le> refreshPeriod_s exTimeDue - varRefreshPeriod_s exTimeDue
   \<and> refreshPeriod_s exTimeDue + varRefreshPeriod_s exTimeDue \<le> 32767
   \<and> flagRefresh (update 6000123 6000 123456789 exTimeDue)
   \<and> 25 \<le> countRefresh_s (update 6000123 6000 123456789 exTimeDue)
   \<and> countRefresh_s (update 6000123 6000 123456789 exTimeDue) \<le> 35"
proof -
  have h: "0 \<le> varRefreshPeriod_s exTimeDue"
    "- 32768 \<le> refreshPeriod_s exTimeDue - varRefreshPeriod_s exTimeDue"
    "refreshPeriod_s exTimeDue + varRefreshPeriod_s exTimeDue \<le> 32767"
    by (simp_all add: exTimeDue_def)
  have f: "flagRefresh (update 6000123 6000 123456789 exTimeDue)"
    by (simp add: update_def tickRefresh_def tickDecide_def tickClock_def exTimeDue_def Let_def
        int16_def)
  have e: "refreshPeriod_s exTimeDue = 30" "varRefreshPeriod_s exTimeDue = 5"
    by (simp_all add: exTimeDue_def)
  from refresh_countdown_reset_within_jitter [OF h f] h f show ?thesis
    by (simp add: e)
qed

end
